theory Spec2Isabelle
  imports Complex_Main "HOL-Library.Multiset" "HOL-Library.List_Lexorder" "HOL-Library.Word"
    "HOL-Library.Log_Nat"
begin

section \<open>Pareto-front approximation and cache of \<^verbatim>\<open>sb_arch_opt/pareto_front.py\<close>\<close>

text \<open>
  The development embeds \<^verbatim>\<open>CachedParetoFrontMixin\<close>: the derivation of the cache path
  (\<^verbatim>\<open>_pf_cache_path\<close>), the cache reset and \<^verbatim>\<open>_calc_pareto_front\<close> with its three paths
  (cache hit, exhaustive evaluation, merged NSGA2 runs) and the size reduction by crowding
  distance. Exceptions are values of \<open>error\<close>; the file system and the observable effects
  are an explicit \<open>world\<close> that every call takes and returns.
\<close>

subsection \<open>Data model\<close>

datatype error = ReprError | IndexError | OverflowError | AxisError | RunError nat

text \<open>The variable classes of pymoo; only \<^verbatim>\<open>isinstance(var, Real)\<close> is tested.\<close>

datatype var = RealVar | IntegerVar | BinaryVar | ChoiceVar

text \<open>
  What the code reads from \<^verbatim>\<open>self\<close>: \<^verbatim>\<open>repr(self)\<close> (a user's \<^verbatim>\<open>__repr__\<close> may raise),
  the class name, \<^verbatim>\<open>self.vars\<close> and the two float64 arrays of \<^verbatim>\<open>self.bounds()\<close>, whose
  entries are finite numbers. Strings are sequences of code points below 256.
\<close>

record problem =
  repr_of :: "error + string"
  class_name :: string
  vars :: "var list"
  xl :: "real list"
  xu :: "real list"

text \<open>An objective matrix: one row per point, one column per objective.\<close>

type_synonym 'a front = "'a list list"

datatype event =
    Loaded string
  | Sampled int
  | Evaluated nat
  | Submitted nat
  | WaitedAll
  | Stored string

text \<open>
  The cache directory (path to unpickled content) and the trace of what a call did:
  reading the cache, exhaustive sampling, batch evaluation, the submission of each NSGA2
  run, the barrier \<^verbatim>\<open>concurrent.futures.wait\<close>, writing the cache.
\<close>

record 'a world =
  files :: "string \<rightharpoonup> 'a front"
  trace :: "event list"

text \<open>
  The collaborators that are not part of the file: the home directory substituted by
  \<^verbatim>\<open>os.path.expanduser\<close>, \<^verbatim>\<open>hashlib.md5(..).digest()\<close>, the sampler
  \<^verbatim>\<open>RepairedExhaustiveSampling().do(self, n)\<close>, the evaluator followed by \<^verbatim>\<open>pop.get('F')\<close>,
  the outcome of \<^verbatim>\<open>minimize(self, NSGA2(pop_size), ('n_gen', n_gen))\<close> in the run of index
  \<open>i\<close> (its \<^verbatim>\<open>res.F\<close>, or the exception it raised), pymoo's \<^verbatim>\<open>calc_crowding_distance\<close> and
  \<^verbatim>\<open>np.argsort\<close>.
\<close>

record ('a, 'c) env =
  home :: string
  md5_digest :: "8 word list \<Rightarrow> 8 word list"
  exhaustive_sample :: "problem \<Rightarrow> int \<Rightarrow> real list list"
  evaluate :: "problem \<Rightarrow> real list list \<Rightarrow> 'a front"
  minimize :: "problem \<Rightarrow> int \<Rightarrow> int \<Rightarrow> nat \<Rightarrow> error + 'a front"
  calc_crowding_distance :: "'a front \<Rightarrow> 'c list"
  argsort :: "'c list \<Rightarrow> nat list"

subsection \<open>The cache path\<close>

text \<open>\<^verbatim>\<open>str.lower\<close> on code points below 256.\<close>

definition py_lower_char :: "char \<Rightarrow> char" where
  "py_lower_char c =
     (let n = (of_char c :: nat)
      in if (65 \<le> n \<and> n \<le> 90) \<or> (192 \<le> n \<and> n \<le> 222 \<and> n \<noteq> 215)
         then char_of (n + 32) else c)"

text \<open>The code points below 256 that \<^verbatim>\<open>str.strip()\<close> removes.\<close>

definition py_isspace :: "char \<Rightarrow> bool" where
  "py_isspace c = ((of_char c :: nat) \<in> {9, 10, 11, 12, 13, 28, 29, 30, 31, 32, 133, 160})"

definition py_strip :: "string \<Rightarrow> string" where
  "py_strip s = rev (dropWhile py_isspace (rev (dropWhile py_isspace s)))"

text \<open>The character class \<^verbatim>\<open>[0-9a-z]\<close>.\<close>

definition in_09az :: "char \<Rightarrow> bool" where
  "in_09az c = (let n = (of_char c :: nat) in (48 \<le> n \<and> n \<le> 57) \<or> (97 \<le> n \<and> n \<le> 122))"

text \<open>\<^verbatim>\<open>re.sub('[^0-9a-z]', '_', s)\<close>.\<close>

definition re_sub_09az :: "string \<Rightarrow> string" where
  "re_sub_09az s = map (\<lambda>c. if in_09az c then c else CHR ''_'') s"

text \<open>\<^verbatim>\<open>s.encode('utf-8')\<close> on code points below 256.\<close>

definition utf8_encode :: "string \<Rightarrow> 8 word list" where
  "utf8_encode s =
     concat (map (\<lambda>c. let n = (of_char c :: nat)
                      in if n < 128 then [of_nat n]
                         else [of_nat (192 + n div 64), of_nat (128 + n mod 64)]) s)"

definition hex_byte :: "8 word \<Rightarrow> string" where
  "hex_byte b = [''0123456789abcdef'' ! (unat b div 16), ''0123456789abcdef'' ! (unat b mod 16)]"

text \<open>\<^verbatim>\<open>hashlib.md5(s.encode('utf-8')).hexdigest()\<close>.\<close>

definition md5_hexdigest :: "('a, 'c) env \<Rightarrow> string \<Rightarrow> string" where
  "md5_hexdigest env s = concat (map hex_byte (md5_digest env (utf8_encode s)))"

text \<open>
  Lines 140 to 146: the file name without its extension. The \<^verbatim>\<open>repr\<close> is replaced by
  the class name when it starts with \<^verbatim>\<open><\<close>.
\<close>

definition cache_key :: "('a, 'c) env \<Rightarrow> problem \<Rightarrow> error + string" where
  "cache_key env p =
     (case repr_of p of
        Inl e \<Rightarrow> Inl e
      | Inr r \<Rightarrow>
          let class_str = (if take 1 r = ''<'' then class_name p else r);
              class_str = re_sub_09az (py_strip (map py_lower_char class_str));
              class_str = (if length class_str > 20
                           then take 20 (md5_hexdigest env class_str) else class_str)
          in Inr class_str)"

definition pf_cache_path :: "('a, 'c) env \<Rightarrow> problem \<Rightarrow> error + string" where
  "pf_cache_path env p =
     (case cache_key env p of
        Inl e \<Rightarrow> Inl e
      | Inr class_str \<Rightarrow> Inr (home env @ ''/.arch_opt_pf_cache/'' @ class_str @ ''.pkl''))"

definition reset_pf_cache :: "('a, 'c) env \<Rightarrow> problem \<Rightarrow> 'a world \<Rightarrow> (error + unit) \<times> 'a world" where
  "reset_pf_cache env p w =
     (case pf_cache_path env p of
        Inl e \<Rightarrow> (Inl e, w)
      | Inr cache_path \<Rightarrow> (Inr (), w\<lparr>files := (files w)(cache_path := None)\<rparr>))"

subsection \<open>Size of the design space\<close>

text \<open>
  Line 66 computes \<^verbatim>\<open>xu[i]-xl[i]+1\<close> in float64: each of the two operations is the exact
  result rounded to the nearest float64 number, ties to the even significand, and is
  \<^verbatim>\<open>inf\<close> when the rounded result reaches \<open>2\<^sup>1\<^sup>0\<^sup>2\<^sup>4\<close>.
\<close>

definition round_even :: "real \<Rightarrow> int" where
  "round_even x =
     (let f = \<lfloor>x\<rfloor>; r = x - of_int f
      in if r < 1 / 2 then f else if 1 / 2 < r then f + 1 else if even f then f else f + 1)"

text \<open>\<open>\<lfloor>log\<^sub>2 x\<rfloor>\<close> of a positive number.\<close>

definition floor_log2 :: "real \<Rightarrow> int" where
  "floor_log2 x =
     (if 1 \<le> x then bitlen \<lfloor>x\<rfloor> - 1
      else let b = bitlen \<lfloor>1 / x\<rfloor> - 1 in if 1 / x = 2 ^ nat b then - b else - b - 1)"

definition pow2 :: "int \<Rightarrow> real" where
  "pow2 e = (if 0 \<le> e then 2 ^ nat e else 1 / 2 ^ nat (- e))"

text \<open>
  The float64 number nearest to a real, \<open>None\<close> for \<^verbatim>\<open>inf\<close> and \<^verbatim>\<open>-inf\<close>: 53 significant
  bits, the exponent of the subnormal numbers from \<open>2\<^sup>-\<^sup>1\<^sup>0\<^sup>2\<^sup>2\<close> down.
\<close>

definition round64 :: "real \<Rightarrow> real option" where
  "round64 x =
     (if x = 0 then Some 0
      else let e = max (floor_log2 \<bar>x\<bar>) (- 1022);
               q = pow2 (e - 52);
               r = of_int (round_even (x / q)) * q
           in if 2 ^ 1024 \<le> \<bar>r\<bar> then None else Some r)"

text \<open>\<^verbatim>\<open>int(x)\<close> of a finite float truncates towards zero.\<close>

definition py_int :: "real \<Rightarrow> int" where
  "py_int x = (if 0 \<le> x then \<lfloor>x\<rfloor> else \<lceil>x\<rceil>)"

text \<open>
  \<^verbatim>\<open>int(xu[i]-xl[i]+1)\<close> for the bounds \<open>l\<close> and \<open>u\<close>; \<^verbatim>\<open>int(inf)\<close> raises
  \<^verbatim>\<open>OverflowError\<close>, and \<^verbatim>\<open>inf + 1\<close> is \<^verbatim>\<open>inf\<close>.
\<close>

definition float_size :: "real \<Rightarrow> real \<Rightarrow> error + int" where
  "float_size l u =
     (case round64 (u - l) of
        None \<Rightarrow> Inl OverflowError
      | Some d \<Rightarrow>
          (case round64 (d + 1) of
             None \<Rightarrow> Inl OverflowError
           | Some s \<Rightarrow> Inr (py_int s)))"

text \<open>
  The loop of lines 60 to 66 from index \<open>i\<close> on, with the product so far: \<open>None\<close> at the
  first continuous variable, \<^verbatim>\<open>IndexError\<close> where a bound is missing.
\<close>

fun size_loop :: "problem \<Rightarrow> nat \<Rightarrow> var list \<Rightarrow> int \<Rightarrow> error + int option" where
  "size_loop p i [] n = Inr (Some n)"
| "size_loop p i (v # vs) n =
     (if v = RealVar then Inr None
      else if i < length (xu p) \<and> i < length (xl p)
      then (case float_size (xl p ! i) (xu p ! i) of
              Inl e \<Rightarrow> Inl e
            | Inr k \<Rightarrow> size_loop p (Suc i) vs (n * k))
      else Inl IndexError)"

definition design_space_size :: "problem \<Rightarrow> error + int option" where
  "design_space_size p = size_loop p 0 (vars p) 1"

text \<open>The test of line 69.\<close>

definition use_exhaustive :: "int option \<Rightarrow> int \<Rightarrow> int \<Rightarrow> int \<Rightarrow> bool" where
  "use_exhaustive n pop_size n_gen n_repeat =
     (case n of None \<Rightarrow> False | Some m \<Rightarrow> m < pop_size * n_gen * n_repeat)"

subsection \<open>Non-dominated filtering\<close>

text \<open>
  pymoo's domination of row \<open>b\<close> by row \<open>a\<close> (minimisation): some column of \<open>a\<close> is smaller
  and none is larger.
\<close>

definition dominates :: "'a::linorder list \<Rightarrow> 'a list \<Rightarrow> bool" where
  "dominates a b = (list_ex (\<lambda>(x, y). x < y) (zip a b) \<and> \<not> list_ex (\<lambda>(x, y). y < x) (zip a b))"

text \<open>
  \<^verbatim>\<open>NonDominatedSorting().do(F, only_non_dominated_front=True)\<close>: the indices of the rows that
  no row dominates, ascending.
\<close>

definition non_dominated_front :: "'a::linorder front \<Rightarrow> nat list" where
  "non_dominated_front F =
     filter (\<lambda>i. \<not> list_ex (\<lambda>g. dominates g (F ! i)) F) [0..<length F]"

text \<open>\<^verbatim>\<open>F[idx, :]\<close>; an index past the last row raises.\<close>

definition take_rows :: "'a front \<Rightarrow> nat list \<Rightarrow> error + 'a front" where
  "take_rows F idx =
     (if list_all (\<lambda>i. i < length F) idx then Inr (map ((!) F) idx) else Inl IndexError)"

text \<open>Lines 74 and 75, and 91 and 92: the rows of the first front.\<close>

definition nds_select :: "'a::linorder front \<Rightarrow> error + 'a front" where
  "nds_select F = take_rows F (non_dominated_front F)"

definition non_dominated :: "'a::linorder front \<Rightarrow> bool" where
  "non_dominated F = list_all (\<lambda>a. \<not> list_ex (\<lambda>b. dominates b a) F) F"

subsection \<open>The two ways to a front\<close>

definition exhaustive_front :: "('a::linorder, 'c) env \<Rightarrow> problem \<Rightarrow> int \<Rightarrow> error + 'a front" where
  "exhaustive_front env p n =
     (let pop = exhaustive_sample env p n;
          pf = evaluate env p pop
      in nds_select pf)"

text \<open>\<^verbatim>\<open>_run_minimize\<close>, the progress message left out.\<close>

definition run_minimize :: "('a, 'c) env \<Rightarrow> problem \<Rightarrow> int \<Rightarrow> int \<Rightarrow> nat \<Rightarrow> int \<Rightarrow> error + 'a front" where
  "run_minimize env p pop_size n_gen i n = minimize env p pop_size n_gen i"

text \<open>
  The loop of lines 84 to 92 over the results still to process; \<^verbatim>\<open>futures[i].result()\<close>
  raises what run \<open>i\<close> raised. \<^verbatim>\<open>np.row_stack\<close> appends the rows (all fronts of one problem
  have the same number of columns).
\<close>

fun merge_loop :: "'a::linorder front option \<Rightarrow> (error + 'a front) list \<Rightarrow> error + 'a front option" where
  "merge_loop pf [] = Inr pf"
| "merge_loop pf (res # rest) =
     (case res of
        Inl e \<Rightarrow> Inl e
      | Inr F \<Rightarrow>
          (case pf of
             None \<Rightarrow> merge_loop (Some F) rest
           | Some pf0 \<Rightarrow>
               (case nds_select (pf0 @ F) of
                  Inl e \<Rightarrow> Inl e
                | Inr pf1 \<Rightarrow> merge_loop (Some pf1) rest)))"

definition futures :: "('a, 'c) env \<Rightarrow> problem \<Rightarrow> int \<Rightarrow> int \<Rightarrow> int \<Rightarrow> (error + 'a front) list" where
  "futures env p pop_size n_gen n_repeat =
     map (\<lambda>i. run_minimize env p pop_size n_gen i n_repeat) [0..<nat n_repeat]"

definition stochastic_front ::
  "('a::linorder, 'c) env \<Rightarrow> problem \<Rightarrow> int \<Rightarrow> int \<Rightarrow> int \<Rightarrow> error + 'a front option" where
  "stochastic_front env p pop_size n_gen n_repeat =
     merge_loop None (futures env p pop_size n_gen n_repeat)"

subsection \<open>Reduction of the front\<close>

text \<open>\<^verbatim>\<open>np.unique(pf, axis=0)\<close>: the distinct rows in ascending lexicographic order.\<close>

definition unique_rows :: "'a::linorder front \<Rightarrow> 'a front" where
  "unique_rows pf = sort (remdups pf)"

text \<open>The body of the loop of lines 97 to 100.\<close>

definition reduce_step :: "('a, 'c) env \<Rightarrow> 'a front \<Rightarrow> error + 'a front" where
  "reduce_step env pf =
     (let crowding_of_front = calc_crowding_distance env pf;
          i_max_crowding = drop 1 (argsort env crowding_of_front)
      in take_rows pf i_max_crowding)"

fun reduce_loop :: "('a, 'c) env \<Rightarrow> nat \<Rightarrow> 'a front \<Rightarrow> error + 'a front" where
  "reduce_loop env 0 pf = Inr pf"
| "reduce_loop env (Suc j) pf =
     (case reduce_step env pf of
        Inl e \<Rightarrow> Inl e
      | Inr pf' \<Rightarrow> reduce_loop env j pf')"

text \<open>Lines 96 to 100; \<^verbatim>\<open>range\<close> of a number that is not positive is empty.\<close>

definition down_sample :: "('a, 'c) env \<Rightarrow> int option \<Rightarrow> 'a front \<Rightarrow> error + 'a front" where
  "down_sample env n_pts_keep pf =
     (case n_pts_keep of
        None \<Rightarrow> Inr pf
      | Some k \<Rightarrow>
          if int (length pf) > k then reduce_loop env (nat (int (length pf) - k)) pf
          else Inr pf)"

text \<open>Lines 95 to 100; \<^verbatim>\<open>np.unique(None, axis=0)\<close> raises \<^verbatim>\<open>AxisError\<close>.\<close>

definition reduce_front :: "('a::linorder, 'c) env \<Rightarrow> int option \<Rightarrow> 'a front option \<Rightarrow> error + 'a front" where
  "reduce_front env n_pts_keep pf =
     (case pf of
        None \<Rightarrow> Inl AxisError
      | Some pf0 \<Rightarrow> down_sample env n_pts_keep (unique_rows pf0))"

subsection \<open>The cached computation\<close>

text \<open>Lines 59 to 92: the front before the reduction, and what was done to get it.\<close>

definition compute_front ::
  "('a::linorder, 'c) env \<Rightarrow> problem \<Rightarrow> int \<Rightarrow> int \<Rightarrow> int \<Rightarrow> (error + 'a front option) \<times> event list" where
  "compute_front env p pop_size n_gen n_repeat =
     (case design_space_size p of
        Inl e \<Rightarrow> (Inl e, [])
      | Inr n \<Rightarrow>
          if use_exhaustive n pop_size n_gen n_repeat
          then (case exhaustive_front env p (the n) of
                  Inl e \<Rightarrow> Inl e
                | Inr pf \<Rightarrow> Inr (Some pf),
                [Sampled (the n), Evaluated (length (exhaustive_sample env p (the n)))])
          else (stochastic_front env p pop_size n_gen n_repeat,
                map Submitted [0..<nat n_repeat] @ [WaitedAll]))"

definition calc_pareto_front ::
  "('a::linorder, 'c) env \<Rightarrow> problem \<Rightarrow> int \<Rightarrow> int \<Rightarrow> int \<Rightarrow> int option \<Rightarrow> 'a world
     \<Rightarrow> (error + 'a front) \<times> 'a world" where
  "calc_pareto_front env p pop_size n_gen n_repeat n_pts_keep w =
     (case pf_cache_path env p of
        Inl e \<Rightarrow> (Inl e, w)
      | Inr cache_path \<Rightarrow>
          (case files w cache_path of
             Some cached \<Rightarrow> (Inr cached, w\<lparr>trace := trace w @ [Loaded cache_path]\<rparr>)
           | None \<Rightarrow>
               (case compute_front env p pop_size n_gen n_repeat of
                  (Inl e, evs) \<Rightarrow> (Inl e, w\<lparr>trace := trace w @ evs\<rparr>)
                | (Inr pf0, evs) \<Rightarrow>
                    (case reduce_front env n_pts_keep pf0 of
                       Inl e \<Rightarrow> (Inl e, w\<lparr>trace := trace w @ evs\<rparr>)
                     | Inr pf \<Rightarrow>
                         (Inr pf, w\<lparr>files := (files w)(cache_path \<mapsto> pf),
                                     trace := trace w @ evs @ [Stored cache_path]\<rparr>)))))"

subsection \<open>Specification notions\<close>

text \<open>
  The non-dominated subset of a matrix, rows kept in their order: the rows that no row of
  the matrix dominates.
\<close>

definition non_dominated_subset :: "'a::linorder front \<Rightarrow> 'a front" where
  "non_dominated_subset F = filter (\<lambda>a. \<not> list_ex (\<lambda>b. dominates b a) F) F"

text \<open>
  One removal: \<open>q'\<close> is \<open>q\<close> without the row that \<^verbatim>\<open>argsort\<close> of the crowding distances of
  \<open>q\<close> puts first, a row of lowest crowding distance in \<open>q\<close>; the other rows follow in the
  order of \<^verbatim>\<open>argsort\<close>.
\<close>

definition removes_lowest :: "('a, 'c::linorder) env \<Rightarrow> 'a front \<Rightarrow> 'a front \<Rightarrow> bool" where
  "removes_lowest env q q' =
     (\<exists>i rest. argsort env (calc_crowding_distance env q) = i # rest \<and> i < length q \<and>
        (\<forall>j<length q. calc_crowding_distance env q ! i \<le> calc_crowding_distance env q ! j) \<and>
        q' = map ((!) q) rest \<and> mset q' = mset q - {#q ! i#})"

text \<open>Every cached front is non-dominated.\<close>

definition cache_ok :: "'a::linorder world \<Rightarrow> bool" where
  "cache_ok w = (\<forall>pf \<in> ran (files w). non_dominated pf)"

text \<open>
  What the reduction needs of the two library routines: one crowding distance per row, and
  an \<^verbatim>\<open>argsort\<close> that returns the indices of its argument ordered by ascending value (numpy
  leaves the order of equal values to the sorting algorithm).
\<close>

definition sorting_ok :: "('a, 'c::linorder) env \<Rightarrow> bool" where
  "sorting_ok env =
     ((\<forall>F. length (calc_crowding_distance env F) = length F) \<and>
      (\<forall>xs. mset (argsort env xs) = mset [0..<length xs] \<and>
            sorted (map ((!) xs) (argsort env xs))))"

subsection \<open>A reference instance of the collaborators\<close>

text \<open>Crowding distances are reals or \<^verbatim>\<open>inf\<close>.\<close>

datatype xreal = Fin real | PInf

instantiation xreal :: linorder
begin

fun less_eq_xreal :: "xreal \<Rightarrow> xreal \<Rightarrow> bool" where
  "less_eq_xreal a PInf = True"
| "less_eq_xreal PInf (Fin y) = False"
| "less_eq_xreal (Fin x) (Fin y) = (x \<le> y)"

definition less_xreal :: "xreal \<Rightarrow> xreal \<Rightarrow> bool" where
  "less_xreal a b = (a \<le> b \<and> \<not> b \<le> a)"

instance
proof
  fix x y z :: xreal
  show "(x < y) = (x \<le> y \<and> \<not> y \<le> x)"
    by (simp add: less_xreal_def)
  show "x \<le> x"
    by (cases x) simp_all
  show "x \<le> y \<Longrightarrow> y \<le> z \<Longrightarrow> x \<le> z"
    by (cases x; cases y; cases z) simp_all
  show "x \<le> y \<Longrightarrow> y \<le> x \<Longrightarrow> x = y"
    by (cases x; cases y) simp_all
  show "x \<le> y \<or> y \<le> x"
    by (cases x; cases y) auto
qed

end

fun xadd :: "xreal \<Rightarrow> xreal \<Rightarrow> xreal" where
  "xadd (Fin x) (Fin y) = Fin (x + y)"
| "xadd a b = PInf"

fun xdiv :: "xreal \<Rightarrow> nat \<Rightarrow> xreal" where
  "xdiv (Fin x) n = Fin (x / real n)"
| "xdiv PInf n = PInf"

text \<open>A stable \<^verbatim>\<open>argsort\<close> (numpy's \<^verbatim>\<open>kind='mergesort'\<close>, and its default on short arrays).\<close>

definition argsort_stable :: "'b::linorder list \<Rightarrow> nat list" where
  "argsort_stable xs = sort_key (\<lambda>i. xs ! i) [0..<length xs]"

text \<open>
  pymoo's \<^verbatim>\<open>calc_crowding_distance\<close> in exact arithmetic, for rows that its filter of
  duplicates (distance at most \<^verbatim>\<open>1e-32\<close>) keeps apart. One column: the distances of each
  value to its neighbours in the sorted column, over the range of the column; \<^verbatim>\<open>inf\<close> at
  both ends, and zero everywhere when the range is zero.
\<close>

definition column_crowding :: "real list \<Rightarrow> xreal list" where
  "column_crowding col =
     (let I = argsort_stable col;
          s = map ((!) col) I;
          k = length col;
          norm = s ! (k - 1) - s ! 0;
          J = argsort_stable I
      in map (\<lambda>i. let q = J ! i in
                if norm = 0 then Fin 0
                else xadd (if q = 0 then PInf else Fin ((s ! q - s ! (q - 1)) / norm))
                          (if q + 1 = k then PInf else Fin ((s ! (q + 1) - s ! q) / norm)))
           [0..<k])"

definition crowding_distance :: "real front \<Rightarrow> xreal list" where
  "crowding_distance F =
     (let n_points = length F in
      if n_points \<le> 2 then replicate n_points PInf
      else let n_obj = length (F ! 0);
               cols = map (\<lambda>c. column_crowding (map (\<lambda>r. r ! c) F)) [0..<n_obj]
           in map (\<lambda>i. xdiv (foldr xadd (map (\<lambda>col. col ! i) cols) (Fin 0)) n_obj)
                [0..<n_points])"

text \<open>
  An example problem with two integer variables, \<open>0..3\<close> and \<open>0..1\<close>, and the objectives
  \<open>x\<^sub>0 + x\<^sub>1\<close> and \<open>(3 - x\<^sub>0)\<^sup>2 + x\<^sub>1\<close>; the same with a continuous first variable; and one with
  the default \<^verbatim>\<open>repr\<close> of an object.
\<close>

definition example_problem :: problem where
  "example_problem =
     \<lparr>repr_of = Inr ''Example()'', class_name = ''Example'',
      vars = [IntegerVar, IntegerVar], xl = [0, 0], xu = [3, 1]\<rparr>"

definition continuous_problem :: problem where
  "continuous_problem =
     \<lparr>repr_of = Inr ''Continuous()'', class_name = ''Continuous'',
      vars = [RealVar, IntegerVar], xl = [0, 0], xu = [3, 1]\<rparr>"

definition default_repr_problem :: problem where
  "default_repr_problem =
     \<lparr>repr_of = Inr ''<problems.Example object at 0x7f3a5c>'', class_name = ''Example'',
      vars = [IntegerVar, IntegerVar], xl = [0, 0], xu = [3, 1]\<rparr>"


text \<open>Every point of the grid of the bounds.\<close>

definition grid_sample :: "problem \<Rightarrow> int \<Rightarrow> real list list" where
  "grid_sample p n =
     map (map real_of_int) (product_lists (map (\<lambda>(l, u). [\<lfloor>l\<rfloor>..\<lfloor>u\<rfloor>]) (zip (xl p) (xu p))))"

definition example_evaluate :: "problem \<Rightarrow> real list list \<Rightarrow> real front" where
  "example_evaluate p pop =
     map (\<lambda>x. [x ! 0 + x ! 1, (3 - x ! 0) * (3 - x ! 0) + x ! 1]) pop"

text \<open>Run \<open>i\<close> finds two points of the front.\<close>

definition example_minimize :: "problem \<Rightarrow> int \<Rightarrow> int \<Rightarrow> nat \<Rightarrow> error + real front" where
  "example_minimize p pop_size n_gen i = Inr [[real i, 3 - real i], [real i + 1, 2 - real i]]"

text \<open>The digest plays no part in the examples: their keys have at most 20 characters.\<close>

definition example_env :: "(real, xreal) env" where
  "example_env =
     \<lparr>home = ''/home/user'', md5_digest = (\<lambda>m. replicate 16 0),
      exhaustive_sample = grid_sample, evaluate = example_evaluate,
      minimize = example_minimize,
      calc_crowding_distance = crowding_distance, argsort = argsort_stable\<rparr>"

text \<open>The same, where the run of index 1 raises.\<close>

definition failing_env :: "(real, xreal) env" where
  "failing_env =
     example_env\<lparr>minimize := (\<lambda>p pop_size n_gen i.
        if i = 1 then Inl (RunError 1) else example_minimize p pop_size n_gen i)\<rparr>"

definition empty_world :: "real world" where
  "empty_world = \<lparr>files = Map.empty, trace = []\<rparr>"

section \<open>Properties\<close>

lemma map_nth_filter_upt:
  "map ((!) F) (filter (\<lambda>i. P (F ! i)) [0..<length F]) = filter P F"
proof -
  have "filter P (map ((!) F) [0..<length F]) = map ((!) F) (filter (P \<circ> (!) F) [0..<length F])"
    by (rule filter_map)
  then show ?thesis
    by (simp add: map_nth comp_def)
qed

lemma nds_select_eq: "nds_select F = Inr (non_dominated_subset F)"
proof -
  have "list_all (\<lambda>i. i < length F) (non_dominated_front F)"
    by (simp add: non_dominated_front_def list_all_iff)
  then show ?thesis
    using map_nth_filter_upt[of F "\<lambda>a. \<not> list_ex (\<lambda>b. dominates b a) F"]
    by (simp add: nds_select_def take_rows_def non_dominated_subset_def non_dominated_front_def)
qed

lemma merge_loop_fail:
  "i < length rs \<Longrightarrow> rs ! i = Inl e \<Longrightarrow>
   \<exists>j e'. j \<le> i \<and> rs ! j = Inl e' \<and> (\<forall>k<j. \<exists>F. rs ! k = Inr F) \<and> merge_loop acc rs = Inl e'"
proof (induction rs arbitrary: acc i)
  case Nil
  then show ?case by simp
next
  case (Cons r rs)
  show ?case
  proof (cases r)
    case (Inl e0)
    then have "(r # rs) ! 0 = Inl e0 \<and> merge_loop acc (r # rs) = Inl e0"
      by simp
    then show ?thesis by blast
  next
    case (Inr F)
    with Cons.prems obtain i' where i': "i = Suc i'"
      by (cases i) auto
    define acc' where "acc' = (case acc of None \<Rightarrow> Some F | Some pf0 \<Rightarrow> Some (non_dominated_subset (pf0 @ F)))"
    have step: "merge_loop acc (r # rs) = merge_loop acc' rs"
      using Inr by (simp add: acc'_def nds_select_eq split: option.splits)
    from Cons.prems i' have "i' < length rs" "rs ! i' = Inl e"
      by simp_all
    from Cons.IH[OF this, of acc'] obtain j e' where
      j: "j \<le> i'" "rs ! j = Inl e'" "\<forall>k<j. \<exists>F. rs ! k = Inr F" "merge_loop acc' rs = Inl e'"
      by blast
    have "\<forall>k<Suc j. \<exists>G. (r # rs) ! k = Inr G"
      using j(3) Inr by (auto simp: less_Suc_eq_0_disj)
    with j i' step have "Suc j \<le> i \<and> (r # rs) ! Suc j = Inl e' \<and>
        (\<forall>k<Suc j. \<exists>G. (r # rs) ! k = Inr G) \<and> merge_loop acc (r # rs) = Inl e'"
      by simp
    then show ?thesis by blast
  qed
qed

text \<open>
  Claim C4. When a file exists at the cache path, the call returns its content whatever
  the four arguments are, and its only effect is the read: nothing is sampled, evaluated or
  searched, and the cache is not written. So after a call that returned a front, a second
  call on the resulting world, with any arguments, returns the same front from the cache.
\<close>

theorem cache_hit_returns_cached:
  "(pf_cache_path env p = Inr path \<and> files w path = Some cached \<longrightarrow>
      calc_pareto_front env p pop_size n_gen n_repeat n_pts_keep w =
        (Inr cached, w\<lparr>trace := trace w @ [Loaded path]\<rparr>)) \<and>
   (calc_pareto_front env p pop_size n_gen n_repeat n_pts_keep w = (Inr pf, w1) \<longrightarrow>
      (\<exists>path. pf_cache_path env p = Inr path \<and> files w1 path = Some pf \<and>
         calc_pareto_front env p pop_size' n_gen' n_repeat' n_pts_keep' w1 =
           (Inr pf, w1\<lparr>trace := trace w1 @ [Loaded path]\<rparr>)))"
  by (auto simp: calc_pareto_front_def split: sum.splits option.splits prod.splits)

text \<open>
  Claim C7. On the path of the NSGA2 runs (cache miss), when some run raises, all
  \<open>n_repeat\<close> runs have been submitted and waited for, the call raises what the first failing
  run in submission order raised, returns no front, and leaves the cache files as they
  were.
\<close>

theorem worker_failure_propagates:
  assumes "pf_cache_path env p = Inr path" and "files w path = None"
    and "design_space_size p = Inr n" and "\<not> use_exhaustive n pop_size n_gen n_repeat"
    and "i < nat n_repeat" and "minimize env p pop_size n_gen i = Inl e"
  shows "\<exists>j e'. j \<le> i \<and> minimize env p pop_size n_gen j = Inl e' \<and>
           (\<forall>k<j. \<exists>F. minimize env p pop_size n_gen k = Inr F) \<and>
           calc_pareto_front env p pop_size n_gen n_repeat n_pts_keep w =
             (Inl e', w\<lparr>trace := trace w @ map Submitted [0..<nat n_repeat] @ [WaitedAll]\<rparr>) \<and>
           files (snd (calc_pareto_front env p pop_size n_gen n_repeat n_pts_keep w)) = files w"
proof -
  let ?rs = "futures env p pop_size n_gen n_repeat"
  have len: "i < length ?rs" and at: "?rs ! i = Inl e"
    using assms(5,6) by (simp_all add: futures_def run_minimize_def)
  from merge_loop_fail[OF len at, of None] obtain j e' where
    j: "j \<le> i" "?rs ! j = Inl e'" "\<forall>k<j. \<exists>F. ?rs ! k = Inr F" "merge_loop None ?rs = Inl e'"
    by blast
  have nth: "\<And>k. k \<le> i \<Longrightarrow> ?rs ! k = minimize env p pop_size n_gen k"
    using assms(5) by (simp add: futures_def run_minimize_def)
  have a: "minimize env p pop_size n_gen j = Inl e'"
    using j(1,2) nth by simp
  have b: "\<forall>k<j. \<exists>F. minimize env p pop_size n_gen k = Inr F"
    using j(1,3) nth by fastforce
  have c: "compute_front env p pop_size n_gen n_repeat =
      (Inl e', map Submitted [0..<nat n_repeat] @ [WaitedAll])"
    using assms(3,4) j(4) by (simp add: compute_front_def stochastic_front_def)
  have d: "calc_pareto_front env p pop_size n_gen n_repeat n_pts_keep w =
      (Inl e', w\<lparr>trace := trace w @ map Submitted [0..<nat n_repeat] @ [WaitedAll]\<rparr>)"
    using assms(1,2) c by (simp add: calc_pareto_front_def)
  from a b d j(1) show ?thesis
    by auto
qed

lemma hex_digits_ok: "n < 16 \<Longrightarrow> in_09az (''0123456789abcdef'' ! n)"
proof -
  have "list_all in_09az ''0123456789abcdef''"
    by (simp add: in_09az_def)
  then show "n < 16 \<Longrightarrow> in_09az (''0123456789abcdef'' ! n)"
    by (simp add: list_all_length)
qed

lemma hex_byte_ok: "list_all in_09az (hex_byte b)"
proof -
  have "unat b < 256"
    using unsigned_less[of b] by simp
  then have "unat b div 16 < 16" "unat b mod 16 < 16"
    by simp_all
  then show ?thesis
    by (simp add: hex_byte_def hex_digits_ok)
qed

lemma md5_hexdigest_ok: "list_all in_09az (md5_hexdigest env s)"
  by (simp add: md5_hexdigest_def list_all_iff) (use hex_byte_ok in \<open>auto simp: list_all_iff\<close>)

lemma re_sub_ok: "list_all (\<lambda>c. in_09az c \<or> c = CHR ''_'') (re_sub_09az s)"
  by (auto simp: re_sub_09az_def list_all_iff)

text \<open>
  Claim C8, amended. The key is computed from the \<^verbatim>\<open>repr\<close>, or from the class name when the
  \<^verbatim>\<open>repr\<close> starts with \<^verbatim>\<open><\<close>: lowercased, stripped, every character outside \<^verbatim>\<open>[0-9a-z]\<close>
  replaced by an underscore, and replaced by the first 20 characters of the MD5 hex digest
  when longer than 20. The path is \<^verbatim>\<open><home>/.arch_opt_pf_cache/<key>.pkl\<close>; the key has at most 20
  characters, all lowercase alphanumerics or underscores; two problems with the same
  \<^verbatim>\<open>repr\<close> (and, when it starts with \<^verbatim>\<open><\<close>, the same class name) have the same path.
\<close>

theorem cache_key_format:
  assumes "repr_of p = Inr r"
  shows "\<exists>key. cache_key env p = Inr key \<and>
           pf_cache_path env p = Inr (home env @ ''/.arch_opt_pf_cache/'' @ key @ ''.pkl'') \<and>
           key = (let t = re_sub_09az (py_strip (map py_lower_char
                            (if take 1 r = ''<'' then class_name p else r)))
                  in if length t > 20 then take 20 (md5_hexdigest env t) else t) \<and>
           length key \<le> 20 \<and>
           list_all (\<lambda>c. in_09az c \<or> c = CHR ''_'') key \<and>
           (\<forall>q. repr_of q = Inr r \<and> (take 1 r = ''<'' \<longrightarrow> class_name q = class_name p)
                \<longrightarrow> pf_cache_path env q = pf_cache_path env p)"
proof -
  define t where "t = re_sub_09az (py_strip (map py_lower_char
                            (if take 1 r = ''<'' then class_name p else r)))"
  define key where "key = (if length t > 20 then take 20 (md5_hexdigest env t) else t)"
  have k: "cache_key env p = Inr key"
    using assms by (simp add: cache_key_def key_def t_def Let_def)
  have len: "length key \<le> 20"
    by (simp add: key_def)
  have "list_all (\<lambda>c. in_09az c \<or> c = CHR ''_'') (take 20 (md5_hexdigest env t))"
    using md5_hexdigest_ok[of env t] by (auto simp: list_all_iff dest: in_set_takeD)
  then have chars: "list_all (\<lambda>c. in_09az c \<or> c = CHR ''_'') key"
    using re_sub_ok by (simp add: key_def t_def)
  have same: "\<forall>q. repr_of q = Inr r \<and> (take 1 r = ''<'' \<longrightarrow> class_name q = class_name p)
                \<longrightarrow> pf_cache_path env q = pf_cache_path env p"
    using assms by (auto simp: pf_cache_path_def cache_key_def Let_def)
  show ?thesis
    using k len chars same by (simp add: pf_cache_path_def key_def t_def Let_def)
qed

text \<open>
  Claim C9, amended. The derivation of the path fails exactly when \<^verbatim>\<open>repr\<close> itself raises,
  and then the call fails with that exception before any computation or caching, the world
  unchanged. A \<^verbatim>\<open>repr\<close> of the default form \<^verbatim>\<open><...>\<close> is no failure: the path is the one of the
  class name.
\<close>

theorem identity_derivation:
  "(pf_cache_path env p = Inl e \<longleftrightarrow> repr_of p = Inl e) \<and>
   (repr_of p = Inl e \<longrightarrow>
      calc_pareto_front env p pop_size n_gen n_repeat n_pts_keep w = (Inl e, w)) \<and>
   (repr_of p = Inr r \<and> take 1 r = ''<'' \<longrightarrow>
      pf_cache_path env p = pf_cache_path env (p\<lparr>repr_of := Inr (class_name p)\<rparr>))"
  by (auto simp: calc_pareto_front_def pf_cache_path_def cache_key_def Let_def
      split: sum.splits)




lemma round_even_of_int: "round_even (of_int k) = k"
  by (simp add: round_even_def)

lemma pow2_nonpos: "e \<le> 0 \<Longrightarrow> pow2 e = 1 / 2 ^ nat (- e)"
  by (cases "e = 0") (simp_all add: pow2_def)

lemma round64_exact:
  assumes int: "x \<in> \<int>" and small: "\<bar>x\<bar> < 2 ^ 53"
  shows "round64 x = Some x"
proof (cases "x = 0")
  case True
  then show ?thesis
    by (simp add: round64_def)
next
  case False
  from int obtain z where z: "x = of_int z"
    by (rule Ints_cases)
  define a where "a = \<bar>z\<bar>"
  have a0: "0 < a"
    using False z by (simp add: a_def)
  have ax: "\<bar>x\<bar> = of_int a"
    by (simp add: z a_def)
  have a53: "a < 2 ^ 53"
  proof -
    have "real_of_int a < real_of_int (2 ^ 53)"
      using small ax by simp
    then show ?thesis
      by (simp only: of_int_less_iff)
  qed
  define e where "e = bitlen a - 1"
  have fl: "floor_log2 \<bar>x\<bar> = e"
    using a0 by (simp add: floor_log2_def ax e_def)
  have bl: "1 \<le> bitlen a"
    using a0 bitlen_eq_zero_iff[of a] bitlen_nonneg[of a] by linarith
  then have e0: "0 \<le> e"
    by (simp add: e_def)
  have "2 ^ nat e \<le> a"
    using bitlen_bounds[OF a0] by (simp add: e_def)
  with a53 have "(2::int) ^ nat e < 2 ^ 53"
    by linarith
  then have "nat e < 53"
    by (simp only: power_strict_increasing_iff[of 2] one_less_numeral_iff semiring_norm)
  then have e52: "e \<le> 52"
    by linarith
  define n where "n = nat (52 - e)"
  have q: "pow2 (max e (- 1022) - 52) = 1 / 2 ^ n"
    using e0 e52 by (simp add: pow2_nonpos n_def max_def)
  have d: "x / (1 / 2 ^ n) = of_int (z * 2 ^ n)"
    by (simp add: z)
  have r: "of_int (round_even (x / (1 / 2 ^ n))) * (1 / 2 ^ n) = x"
    unfolding d round_even_of_int by (simp add: z)
  have "\<not> 2 ^ 1024 \<le> \<bar>x\<bar>"
  proof -
    have "\<bar>x\<bar> < 2 ^ 1024"
      using small by (rule less_trans) simp
    then show ?thesis
      by simp
  qed
  then have big: "(if 2 ^ 1024 \<le> \<bar>x\<bar> then None else Some x) = Some x"
    by simp
  have "round64 x =
      (let e = max (floor_log2 \<bar>x\<bar>) (- 1022);
           q = pow2 (e - 52);
           r = of_int (round_even (x / q)) * q
       in if 2 ^ 1024 \<le> \<bar>r\<bar> then None else Some r)"
    using False by (simp only: round64_def if_False)
  also have "\<dots> = (if 2 ^ 1024 \<le> \<bar>x\<bar> then None else Some x)"
    by (simp only: Let_def fl q r)
  finally show ?thesis
    using big by simp
qed

lemma float_size_exact:
  assumes "u - l \<in> \<int>" and "\<bar>u - l\<bar> + 1 < 2 ^ 53"
  shows "float_size l u = Inr (py_int (u - l + 1))"
proof -
  have "\<bar>u - l\<bar> < 2 ^ 53"
    using assms(2) by linarith
  then have a: "round64 (u - l) = Some (u - l)"
    using assms(1) by (intro round64_exact)
  have "u - l + 1 \<in> \<int>" "\<bar>u - l + 1\<bar> < 2 ^ 53"
    using assms by (simp, linarith)
  then have b: "round64 (u - l + 1) = Some (u - l + 1)"
    by (intro round64_exact)
  show ?thesis
    by (simp add: float_size_def a b)
qed


subsection \<open>Evaluation of the examples\<close>

lemma float_size_0_3: "float_size 0 3 = Inr 4"
  using float_size_exact[of 3 0] by (simp add: py_int_def)

lemma float_size_0_1: "float_size 0 1 = Inr 2"
  using float_size_exact[of 1 0] by (simp add: py_int_def)

lemma example_size: "design_space_size example_problem = Inr (Some 8)"
  by (simp add: design_space_size_def example_problem_def float_size_0_3 float_size_0_1)

lemma continuous_size: "design_space_size continuous_problem = Inr None"
  by (simp add: design_space_size_def continuous_problem_def)

lemma default_repr_size: "design_space_size default_repr_problem = Inr (Some 8)"
  by (simp add: design_space_size_def default_repr_problem_def float_size_0_3 float_size_0_1)

lemma example_path:
  "pf_cache_path example_env example_problem =
     Inr ''/home/user/.arch_opt_pf_cache/example__.pkl''"
  by code_simp

lemma default_repr_path:
  "pf_cache_path example_env default_repr_problem =
     Inr ''/home/user/.arch_opt_pf_cache/example.pkl''"
  by code_simp

lemma example_exhaustive_front:
  "exhaustive_front example_env example_problem 8 = Inr [[0, 9], [1, 4], [2, 1], [3, 0]]"
  by code_simp

lemma default_repr_exhaustive_front:
  "exhaustive_front example_env default_repr_problem 8 = Inr [[0, 9], [1, 4], [2, 1], [3, 0]]"
  by code_simp

lemma example_sample_length: "length (exhaustive_sample example_env example_problem 8) = 8"
  by code_simp

lemma default_repr_sample_length:
  "length (exhaustive_sample example_env default_repr_problem 8) = 8"
  by code_simp

lemma example_compute_front_events:
  "compute_front example_env example_problem 200 20 10 =
     (Inr (Some [[0, 9], [1, 4], [2, 1], [3, 0]]), [Sampled 8, Evaluated 8])"
  by (simp add: compute_front_def example_size use_exhaustive_def example_exhaustive_front
      example_sample_length)

lemma default_repr_compute_front_events:
  "compute_front example_env default_repr_problem 200 20 10 =
     (Inr (Some [[0, 9], [1, 4], [2, 1], [3, 0]]), [Sampled 8, Evaluated 8])"
  by (simp add: compute_front_def default_repr_size use_exhaustive_def
      default_repr_exhaustive_front default_repr_sample_length)

lemma example_unique_rows:
  "unique_rows [[0, 9], [1, 4], [2, 1], [3, 0::real]] = [[0, 9], [1, 4], [2, 1], [3, 0]]"
  by code_simp

lemma example_reduce_100:
  "reduce_front example_env (Some 100) (Some [[0, 9], [1, 4], [2, 1], [3, 0]]) =
     Inr [[0, 9], [1, 4], [2, 1], [3, 0]]"
  by (simp add: reduce_front_def example_unique_rows down_sample_def)

lemma example_calc_100:
  "calc_pareto_front example_env example_problem 200 20 10 (Some 100) empty_world =
     (Inr [[0, 9], [1, 4], [2, 1], [3, 0]],
      empty_world\<lparr>files := (files empty_world)(''/home/user/.arch_opt_pf_cache/example__.pkl'' \<mapsto>
                    [[0, 9], [1, 4], [2, 1], [3, 0]]),
                  trace := trace empty_world @ [Sampled 8, Evaluated 8] @
                    [Stored ''/home/user/.arch_opt_pf_cache/example__.pkl'']\<rparr>)"
proof -
  have miss: "files empty_world ''/home/user/.arch_opt_pf_cache/example__.pkl'' = None"
    by (simp add: empty_world_def)
  show ?thesis
    by (simp only: calc_pareto_front_def example_path miss example_compute_front_events
        example_reduce_100 sum.case option.case prod.case)
qed

lemma default_repr_calc_100:
  "calc_pareto_front example_env default_repr_problem 200 20 10 (Some 100) empty_world =
     (Inr [[0, 9], [1, 4], [2, 1], [3, 0]],
      empty_world\<lparr>files := (files empty_world)(''/home/user/.arch_opt_pf_cache/example.pkl'' \<mapsto>
                    [[0, 9], [1, 4], [2, 1], [3, 0]]),
                  trace := trace empty_world @ [Sampled 8, Evaluated 8] @
                    [Stored ''/home/user/.arch_opt_pf_cache/example.pkl'']\<rparr>)"
proof -
  have miss: "files empty_world ''/home/user/.arch_opt_pf_cache/example.pkl'' = None"
    by (simp add: empty_world_def)
  show ?thesis
    by (simp only: calc_pareto_front_def default_repr_path miss default_repr_compute_front_events
        example_reduce_100 sum.case option.case prod.case)
qed










theorem cache_hit_returns_cached_witness:
  "fst (calc_pareto_front example_env example_problem 200 20 10 (Some 100) empty_world) =
     Inr [[0, 9], [1, 4], [2, 1], [3, 0]] \<and>
   calc_pareto_front example_env example_problem 1 1 1 None
       (snd (calc_pareto_front example_env example_problem 200 20 10 (Some 100) empty_world)) =
     (Inr [[0, 9], [1, 4], [2, 1], [3, 0]],
      (snd (calc_pareto_front example_env example_problem 200 20 10 (Some 100) empty_world))
        \<lparr>trace := trace (snd (calc_pareto_front example_env example_problem 200 20 10 (Some 100)
             empty_world)) @ [Loaded ''/home/user/.arch_opt_pf_cache/example__.pkl'']\<rparr>)"
proof -
  let ?c = "calc_pareto_front example_env example_problem 200 20 10 (Some 100) empty_world"
  have f: "fst ?c = Inr [[0, 9], [1, 4], [2, 1], [3, 0]]"
    by (simp add: example_calc_100)
  then have first: "?c = (Inr [[0, 9], [1, 4], [2, 1], [3, 0]], snd ?c)"
    by (simp add: prod_eq_iff)
  have path: "pf_cache_path example_env example_problem =
      Inr ''/home/user/.arch_opt_pf_cache/example__.pkl''"
    by code_simp
  have "\<exists>path. pf_cache_path example_env example_problem = Inr path \<and>
      files (snd ?c) path = Some [[0, 9], [1, 4], [2, 1], [3, 0]] \<and>
      calc_pareto_front example_env example_problem 1 1 1 None (snd ?c) =
        (Inr [[0, 9], [1, 4], [2, 1], [3, 0]], (snd ?c)\<lparr>trace := trace (snd ?c) @ [Loaded path]\<rparr>)"
    using cache_hit_returns_cached[THEN conjunct2, rule_format, OF first] .
  with path f show ?thesis
    by auto
qed

theorem worker_failure_propagates_witness:
  "calc_pareto_front failing_env continuous_problem 200 20 3 (Some 100) empty_world =
     (Inl (RunError 1),
      empty_world\<lparr>trace := trace empty_world @ map Submitted [0..<nat 3] @ [WaitedAll]\<rparr>) \<and>
   files (snd (calc_pareto_front failing_env continuous_problem 200 20 3 (Some 100) empty_world)) =
     files empty_world"
proof -
  have path: "pf_cache_path failing_env continuous_problem =
      Inr ''/home/user/.arch_opt_pf_cache/continuous__.pkl''"
    by code_simp
  have miss: "files empty_world ''/home/user/.arch_opt_pf_cache/continuous__.pkl'' = None"
    by (simp add: empty_world_def)
  have size: "design_space_size continuous_problem = Inr None"
    by (rule continuous_size)
  have stoch: "\<not> use_exhaustive None 200 20 3"
    by (simp add: use_exhaustive_def)
  have i: "(1::nat) < nat 3"
    by simp
  have fails: "minimize failing_env continuous_problem 200 20 1 = Inl (RunError 1)"
    by (simp add: failing_env_def)
  from worker_failure_propagates[OF path miss size stoch i fails, of "Some 100"]
  obtain j e' where j: "j \<le> 1" "minimize failing_env continuous_problem 200 20 j = Inl e'"
    and res: "calc_pareto_front failing_env continuous_problem 200 20 3 (Some 100) empty_world =
      (Inl e', empty_world\<lparr>trace := trace empty_world @ map Submitted [0..<nat 3] @ [WaitedAll]\<rparr>)"
      "files (snd (calc_pareto_front failing_env continuous_problem 200 20 3 (Some 100) empty_world)) =
        files empty_world"
    by blast
  from j(2) have "e' = RunError 1"
    by (simp add: failing_env_def example_minimize_def split: if_splits)
  with res show ?thesis
    by simp
qed

theorem cache_key_format_witness:
  "cache_key example_env example_problem = Inr ''example__'' \<and>
   pf_cache_path example_env example_problem =
     Inr ''/home/user/.arch_opt_pf_cache/example__.pkl'' \<and>
   length ''example__'' \<le> (20::nat) \<and>
   pf_cache_path example_env (example_problem\<lparr>class_name := ''Other''\<rparr>) =
     pf_cache_path example_env example_problem"
proof -
  have r: "repr_of example_problem = Inr ''Example()''"
    by (simp add: example_problem_def)
  have k: "cache_key example_env example_problem = Inr ''example__''"
    by code_simp
  from cache_key_format[OF r, where env = example_env] obtain key where
    key: "cache_key example_env example_problem = Inr key"
      "pf_cache_path example_env example_problem =
         Inr (home example_env @ ''/.arch_opt_pf_cache/'' @ key @ ''.pkl'')"
      "length key \<le> 20"
      "\<forall>q. repr_of q = Inr ''Example()'' \<and>
           (take 1 ''Example()'' = ''<'' \<longrightarrow> class_name q = class_name example_problem)
           \<longrightarrow> pf_cache_path example_env q = pf_cache_path example_env example_problem"
    by blast
  from key(1) k have "key = ''example__''"
    by simp
  moreover have "repr_of (example_problem\<lparr>class_name := ''Other''\<rparr>) = Inr ''Example()''"
    by (simp add: example_problem_def)
  ultimately show ?thesis
    using key by (simp add: example_env_def)
qed

text \<open>
  Two problems with the same \<^verbatim>\<open>repr\<close>, of the default form, and different class names have
  different paths, and the key is not the normalised \<^verbatim>\<open>repr\<close>.
\<close>

theorem cache_key_default_repr_counterexample:
  "repr_of (default_repr_problem\<lparr>class_name := ''Other''\<rparr>) = repr_of default_repr_problem \<and>
   pf_cache_path example_env (default_repr_problem\<lparr>class_name := ''Other''\<rparr>) =
     Inr ''/home/user/.arch_opt_pf_cache/other.pkl'' \<and>
   pf_cache_path example_env default_repr_problem =
     Inr ''/home/user/.arch_opt_pf_cache/example.pkl'' \<and>
   re_sub_09az (py_strip (map py_lower_char ''<problems.Example object at 0x7f3a5c>'')) =
     ''_problems_example_object_at_0x7f3a5c_''"
proof -
  have "repr_of (default_repr_problem\<lparr>class_name := ''Other''\<rparr>) = repr_of default_repr_problem"
    by simp
  moreover have "pf_cache_path example_env (default_repr_problem\<lparr>class_name := ''Other''\<rparr>) =
     Inr ''/home/user/.arch_opt_pf_cache/other.pkl''"
    by code_simp
  moreover have "pf_cache_path example_env default_repr_problem =
     Inr ''/home/user/.arch_opt_pf_cache/example.pkl''"
    by code_simp
  moreover have "re_sub_09az (py_strip (map py_lower_char ''<problems.Example object at 0x7f3a5c>'')) =
     ''_problems_example_object_at_0x7f3a5c_''"
    by code_simp
  ultimately show ?thesis
    by (intro conjI)
qed

theorem identity_derivation_witness:
  "pf_cache_path example_env (example_problem\<lparr>repr_of := Inl ReprError\<rparr>) = Inl ReprError \<and>
   calc_pareto_front example_env (example_problem\<lparr>repr_of := Inl ReprError\<rparr>) 200 20 10 (Some 100)
       empty_world = (Inl ReprError, empty_world) \<and>
   pf_cache_path example_env default_repr_problem =
     pf_cache_path example_env (default_repr_problem\<lparr>repr_of := Inr ''Example''\<rparr>)"
proof -
  have a: "repr_of (example_problem\<lparr>repr_of := Inl ReprError\<rparr>) = Inl ReprError"
    by simp
  have b: "repr_of default_repr_problem = Inr ''<problems.Example object at 0x7f3a5c>'' \<and>
      take 1 ''<problems.Example object at 0x7f3a5c>'' = ''<''"
    by (simp add: default_repr_problem_def)
  have c: "class_name default_repr_problem = ''Example''"
    by (simp add: default_repr_problem_def)
  show ?thesis
    using identity_derivation[of example_env "example_problem\<lparr>repr_of := Inl ReprError\<rparr>" ReprError
        200 20 10 "Some 100" empty_world] a
      identity_derivation[of example_env default_repr_problem _ _ _ _ _ _
        "''<problems.Example object at 0x7f3a5c>''"] b c
    by simp
qed

text \<open>
  A problem with the default \<^verbatim>\<open>repr\<close> of an object gets a path, and the call computes,
  returns and caches a front.
\<close>

theorem default_repr_counterexample:
  "pf_cache_path example_env default_repr_problem =
     Inr ''/home/user/.arch_opt_pf_cache/example.pkl'' \<and>
   fst (calc_pareto_front example_env default_repr_problem 200 20 10 (Some 100) empty_world) =
     Inr [[0, 9], [1, 4], [2, 1], [3, 0]] \<and>
   trace (snd (calc_pareto_front example_env default_repr_problem 200 20 10 (Some 100) empty_world)) =
     [Sampled 8, Evaluated 8, Stored ''/home/user/.arch_opt_pf_cache/example.pkl'']"
proof -
  note c = default_repr_calc_100
  have t: "trace empty_world = []"
    by (simp add: empty_world_def)
  have "fst (calc_pareto_front example_env default_repr_problem 200 20 10 (Some 100)
      empty_world) = Inr [[0, 9], [1, 4], [2, 1], [3, 0]]"
    by (simp add: c)
  moreover have "trace (snd (calc_pareto_front example_env default_repr_problem 200 20 10 (Some 100)
      empty_world)) = [Sampled 8, Evaluated 8, Stored ''/home/user/.arch_opt_pf_cache/example.pkl'']"
    using t by (simp add: c)
  ultimately show ?thesis
    using default_repr_path by (intro conjI)
qed

lemma sorting_ok_example: "sorting_ok example_env"
proof -
  have "length (crowding_distance F) = length F" for F
    by (simp add: crowding_distance_def Let_def)
  moreover have "mset (argsort_stable xs) = mset [0..<length xs]" for xs :: "xreal list"
    by (simp add: argsort_stable_def)
  moreover have "sorted (map ((!) xs) (argsort_stable xs))" for xs :: "xreal list"
    by (simp add: argsort_stable_def)
  ultimately show ?thesis
    by (simp add: sorting_ok_def example_env_def)
qed

lemma take_rows_Inr: "take_rows F idx = Inr G \<Longrightarrow> G = map ((!) F) idx \<and> (\<forall>i\<in>set idx. i < length F)"
  by (auto simp: take_rows_def list_all_iff split: if_splits)

lemma argsort_perm:
  assumes "sorting_ok env"
  shows "set (argsort env xs) = {0..<length xs}" "distinct (argsort env xs)"
    "length (argsort env xs) = length xs"
proof -
  have m: "mset (argsort env xs) = mset [0..<length xs]"
    using assms by (simp add: sorting_ok_def)
  show "set (argsort env xs) = {0..<length xs}"
    using mset_eq_setD[OF m] by simp
  show "distinct (argsort env xs)"
    using m by (metis distinct_upt mset_eq_imp_distinct_iff)
  show "length (argsort env xs) = length xs"
    using mset_eq_length[OF m] by simp
qed

lemma reduce_step_ok:
  assumes "sorting_ok env"
  shows "reduce_step env pf =
           Inr (map ((!) pf) (drop 1 (argsort env (calc_crowding_distance env pf))))"
proof -
  have len: "length (calc_crowding_distance env pf) = length pf"
    using assms by (simp add: sorting_ok_def)
  have "set (drop 1 (argsort env (calc_crowding_distance env pf))) \<subseteq> {0..<length pf}"
    using argsort_perm(1)[OF assms, of "calc_crowding_distance env pf"] len
    by (metis set_drop_subset)
  then show ?thesis
    by (auto simp: reduce_step_def take_rows_def list_all_iff Let_def)
qed

lemma reduce_step_removes_lowest:
  assumes ok: "sorting_ok env" and ne: "pf \<noteq> []"
  shows "\<exists>i rest. argsort env (calc_crowding_distance env pf) = i # rest \<and> i < length pf \<and>
           (\<forall>j<length pf. calc_crowding_distance env pf ! i \<le> calc_crowding_distance env pf ! j) \<and>
           reduce_step env pf = Inr (map ((!) pf) rest) \<and>
           mset (map ((!) pf) rest) = mset pf - {#pf ! i#} \<and>
           distinct rest \<and> set rest \<subseteq> {0..<length pf}"
proof -
  let ?cd = "calc_crowding_distance env pf"
  let ?idx = "argsort env ?cd"
  have len: "length ?cd = length pf"
    using ok by (simp add: sorting_ok_def)
  have perm: "mset ?idx = mset [0..<length pf]"
    using ok len by (simp add: sorting_ok_def)
  have srt: "sorted (map ((!) ?cd) ?idx)"
    using ok by (simp add: sorting_ok_def)
  have "length ?idx = length pf"
    using argsort_perm(3)[OF ok, of ?cd] len by simp
  with ne obtain i rest where idx: "?idx = i # rest"
    by (cases ?idx) auto
  have set_idx: "set ?idx = {0..<length pf}"
    using argsort_perm(1)[OF ok, of ?cd] len by simp
  have i: "i < length pf"
    using set_idx idx by auto
  have low: "\<forall>j<length pf. ?cd ! i \<le> ?cd ! j"
  proof (intro allI impI)
    fix j assume "j < length pf"
    then have "j \<in> set (i # rest)"
      using set_idx idx by simp
    then show "?cd ! i \<le> ?cd ! j"
      using srt idx by auto
  qed
  have step: "reduce_step env pf = Inr (map ((!) pf) rest)"
    using reduce_step_ok[OF ok, of pf] idx by simp
  have "mset (map ((!) pf) ?idx) = mset (map ((!) pf) [0..<length pf])"
    using perm by (metis mset_map)
  then have "mset (map ((!) pf) (i # rest)) = mset pf"
    using idx by (simp add: map_nth)
  then have ms: "mset (map ((!) pf) rest) = mset pf - {#pf ! i#}"
    by (metis add_mset_remove_trivial list.simps(9) mset.simps(2))
  have "distinct rest" "set rest \<subseteq> {0..<length pf}"
    using argsort_perm(2)[OF ok, of ?cd] set_idx idx by auto
  with idx i low step ms show ?thesis
    by blast
qed

lemma reduce_step_length:
  assumes "sorting_ok env"
  shows "\<exists>pf'. reduce_step env pf = Inr pf' \<and> length pf' = length pf - 1 \<and> mset pf' \<subseteq># mset pf"
proof (cases "pf = []")
  case True
  have "length (argsort env (calc_crowding_distance env pf)) = 0"
    using argsort_perm(3)[OF assms, of "calc_crowding_distance env pf"] assms True
    by (simp add: sorting_ok_def)
  then show ?thesis
    using reduce_step_ok[OF assms, of pf] True by simp
next
  case False
  from reduce_step_removes_lowest[OF assms False] obtain i rest where
    r: "argsort env (calc_crowding_distance env pf) = i # rest" "i < length pf"
      "reduce_step env pf = Inr (map ((!) pf) rest)"
      "mset (map ((!) pf) rest) = mset pf - {#pf ! i#}"
    by blast
  have "size (mset (map ((!) pf) rest)) = size (mset pf) - 1"
    using r(2,4) by (simp add: size_Diff_singleton)
  then have "length (map ((!) pf) rest) = length pf - 1"
    by simp
  moreover have "mset (map ((!) pf) rest) \<subseteq># mset pf"
    using r(4) by simp
  ultimately show ?thesis
    using r(3) by blast
qed

lemma reduce_loop_length:
  assumes "sorting_ok env"
  shows "\<exists>pf'. reduce_loop env j pf = Inr pf' \<and> length pf' = length pf - j \<and> mset pf' \<subseteq># mset pf"
proof (induction j arbitrary: pf)
  case 0
  then show ?case by simp
next
  case (Suc j)
  from reduce_step_length[OF assms, of pf] obtain pf1 where
    s: "reduce_step env pf = Inr pf1" "length pf1 = length pf - 1" "mset pf1 \<subseteq># mset pf"
    by blast
  from Suc.IH[of pf1] obtain pf' where
    l: "reduce_loop env j pf1 = Inr pf'" "length pf' = length pf1 - j" "mset pf' \<subseteq># mset pf1"
    by blast
  have "reduce_loop env (Suc j) pf = Inr pf'"
    using s(1) l(1) by simp
  moreover have "length pf' = length pf - Suc j"
    using s(2) l(2) by simp
  moreover have "mset pf' \<subseteq># mset pf"
    using s(3) l(3) by (rule subset_mset.order_trans[rotated])
  ultimately show ?case
    by blast
qed

lemma reduce_loop_trace:
  assumes ok: "sorting_ok env"
  shows "j \<le> length pf \<Longrightarrow>
         \<exists>fronts. length fronts = Suc j \<and> fronts ! 0 = pf \<and>
           (\<forall>t<j. reduce_step env (fronts ! t) = Inr (fronts ! Suc t) \<and>
                  removes_lowest env (fronts ! t) (fronts ! Suc t)) \<and>
           reduce_loop env j pf = Inr (last fronts) \<and>
           length (last fronts) = length pf - j"
proof (induction j arbitrary: pf)
  case 0
  have "length [pf] = Suc 0 \<and> [pf] ! 0 = pf \<and>
      (\<forall>t<0::nat. reduce_step env ([pf] ! t) = Inr ([pf] ! Suc t) \<and>
             removes_lowest env ([pf] ! t) ([pf] ! Suc t)) \<and>
      reduce_loop env 0 pf = Inr (last [pf]) \<and> length (last [pf]) = length pf - 0"
    by simp
  then show ?case
    by blast
next
  case (Suc j)
  then have ne: "pf \<noteq> []"
    by auto
  from reduce_step_removes_lowest[OF ok ne] obtain i rest where
    r: "argsort env (calc_crowding_distance env pf) = i # rest" "i < length pf"
      "\<forall>j<length pf. calc_crowding_distance env pf ! i \<le> calc_crowding_distance env pf ! j"
      "reduce_step env pf = Inr (map ((!) pf) rest)"
      "mset (map ((!) pf) rest) = mset pf - {#pf ! i#}"
    by blast
  define pf1 where "pf1 = map ((!) pf) rest"
  have step: "reduce_step env pf = Inr pf1"
    using r(4) by (simp add: pf1_def)
  have low: "removes_lowest env pf pf1"
    unfolding removes_lowest_def pf1_def using r(1,2,3,5) by blast
  have "size (mset pf1) = size (mset pf) - 1"
    using r(2,5) by (simp add: pf1_def size_Diff_singleton)
  then have len1: "length pf1 = length pf - 1"
    by simp
  with Suc.prems have "j \<le> length pf1"
    by simp
  from Suc.IH[OF this] obtain fronts1 where
    f: "length fronts1 = Suc j" "fronts1 ! 0 = pf1"
      "\<forall>t<j. reduce_step env (fronts1 ! t) = Inr (fronts1 ! Suc t) \<and>
             removes_lowest env (fronts1 ! t) (fronts1 ! Suc t)"
      "reduce_loop env j pf1 = Inr (last fronts1)"
      "length (last fronts1) = length pf1 - j"
    by blast
  have ne1: "fronts1 \<noteq> []"
    using f(1) by auto
  have steps: "\<forall>t<Suc j. reduce_step env ((pf # fronts1) ! t) = Inr ((pf # fronts1) ! Suc t) \<and>
      removes_lowest env ((pf # fronts1) ! t) ((pf # fronts1) ! Suc t)"
  proof (intro allI impI)
    fix t assume t: "t < Suc j"
    show "reduce_step env ((pf # fronts1) ! t) = Inr ((pf # fronts1) ! Suc t) \<and>
      removes_lowest env ((pf # fronts1) ! t) ((pf # fronts1) ! Suc t)"
    proof (cases t)
      case 0
      then show ?thesis
        using step low f(2) by simp
    next
      case (Suc t')
      with t have "t' < j"
        by simp
      with f(3) Suc show ?thesis
        by simp
    qed
  qed
  have "length (pf # fronts1) = Suc (Suc j) \<and> (pf # fronts1) ! 0 = pf \<and>
      (\<forall>t<Suc j. reduce_step env ((pf # fronts1) ! t) = Inr ((pf # fronts1) ! Suc t) \<and>
         removes_lowest env ((pf # fronts1) ! t) ((pf # fronts1) ! Suc t)) \<and>
      reduce_loop env (Suc j) pf = Inr (last (pf # fronts1)) \<and>
      length (last (pf # fronts1)) = length pf - Suc j"
    using f(1,4,5) ne1 step steps len1 by simp
  then show ?case
    by blast
qed

text \<open>
  Claim C1, amended. With a limit \<open>0 \<le> k\<close> below the number \<open>m\<close> of rows, the reduction
  runs through \<open>m - k\<close> iterations \<open>fronts ! 0, \<dots>, fronts ! (m - k)\<close> from the given front to
  the returned one. Each iteration is one run of the loop body on the current front: it
  recomputes the crowding distances of the current rows and removes the row that \<^verbatim>\<open>argsort\<close>
  puts first, a row of lowest crowding distance; the other rows are kept, in ascending
  order of crowding distance. Exactly \<open>k\<close> rows remain.
\<close>

theorem reduction_removes_lowest:
  assumes "sorting_ok env" and "0 \<le> k" and "k < int (length pf)"
  shows "\<exists>fronts. length fronts = Suc (nat (int (length pf) - k)) \<and> fronts ! 0 = pf \<and>
           (\<forall>t<nat (int (length pf) - k).
              reduce_step env (fronts ! t) = Inr (fronts ! Suc t) \<and>
              removes_lowest env (fronts ! t) (fronts ! Suc t)) \<and>
           down_sample env (Some k) pf = Inr (last fronts) \<and>
           int (length (last fronts)) = k"
proof -
  have d: "down_sample env (Some k) pf = reduce_loop env (nat (int (length pf) - k)) pf"
    using assms(3) by (simp add: down_sample_def)
  have "nat (int (length pf) - k) \<le> length pf"
    using assms(2) by arith
  from reduce_loop_trace[OF assms(1) this] obtain fronts where
    f: "length fronts = Suc (nat (int (length pf) - k))" "fronts ! 0 = pf"
      "\<forall>t<nat (int (length pf) - k).
         reduce_step env (fronts ! t) = Inr (fronts ! Suc t) \<and>
         removes_lowest env (fronts ! t) (fronts ! Suc t)"
      "reduce_loop env (nat (int (length pf) - k)) pf = Inr (last fronts)"
      "length (last fronts) = length pf - nat (int (length pf) - k)"
    by blast
  have "int (length (last fronts)) = k"
    using f(5) assms(2,3) by arith
  with f(1,2,3,4) d show ?thesis
    by auto
qed

lemma calc_miss:
  assumes "pf_cache_path env p = Inr path" and "files w path = None"
    and "compute_front env p pop_size n_gen n_repeat = (Inr pf0, evs)"
  shows "fst (calc_pareto_front env p pop_size n_gen n_repeat n_pts_keep w) =
           reduce_front env n_pts_keep pf0"
  using assms by (simp add: calc_pareto_front_def split: sum.splits)

text \<open>
  Claim C6. Without a limit, or when the deduplicated front has at most \<^verbatim>\<open>n_pts_keep\<close> rows,
  the reduction returns the deduplicated front unchanged; with a limit \<open>k \<ge> 0\<close> below its size
  the result has exactly \<open>k\<close> rows. On a cache miss the call returns that result.
\<close>

theorem returned_front_size:
  assumes "sorting_ok env"
  shows "(n_pts_keep = None \<or> (\<exists>k. n_pts_keep = Some k \<and> int (length (unique_rows pf0)) \<le> k) \<longrightarrow>
            reduce_front env n_pts_keep (Some pf0) = Inr (unique_rows pf0)) \<and>
         (n_pts_keep = Some k \<and> 0 \<le> k \<and> k < int (length (unique_rows pf0)) \<longrightarrow>
            (\<exists>pf. reduce_front env n_pts_keep (Some pf0) = Inr pf \<and> int (length pf) = k)) \<and>
         (pf_cache_path env p = Inr path \<and> files w path = None \<and>
          compute_front env p pop_size n_gen n_repeat = (Inr (Some pf0), evs) \<longrightarrow>
            fst (calc_pareto_front env p pop_size n_gen n_repeat n_pts_keep w) =
              reduce_front env n_pts_keep (Some pf0))"
proof (intro conjI impI)
  assume "n_pts_keep = None \<or> (\<exists>k. n_pts_keep = Some k \<and> int (length (unique_rows pf0)) \<le> k)"
  then show "reduce_front env n_pts_keep (Some pf0) = Inr (unique_rows pf0)"
    by (auto simp: reduce_front_def down_sample_def)
next
  assume a: "n_pts_keep = Some k \<and> 0 \<le> k \<and> k < int (length (unique_rows pf0))"
  then have "0 \<le> k \<and> k < int (length (unique_rows pf0))"
    by simp
  from reduce_loop_length[OF assms, of "nat (int (length (unique_rows pf0)) - k)" "unique_rows pf0"]
  obtain pf where l: "reduce_loop env (nat (int (length (unique_rows pf0)) - k)) (unique_rows pf0) = Inr pf"
      "length pf = length (unique_rows pf0) - nat (int (length (unique_rows pf0)) - k)"
    by blast
  have "int (length pf) = k"
    using l(2) a by arith
  moreover have "reduce_front env n_pts_keep (Some pf0) = Inr pf"
    using a l(1) by (simp add: reduce_front_def down_sample_def)
  ultimately show "\<exists>pf. reduce_front env n_pts_keep (Some pf0) = Inr pf \<and> int (length pf) = k"
    by blast
next
  assume "pf_cache_path env p = Inr path \<and> files w path = None \<and>
          compute_front env p pop_size n_gen n_repeat = (Inr (Some pf0), evs)"
  then show "fst (calc_pareto_front env p pop_size n_gen n_repeat n_pts_keep w) =
              reduce_front env n_pts_keep (Some pf0)"
    using calc_miss by blast
qed

lemma example_crowding:
  "calc_crowding_distance example_env [[0, 9], [1, 4], [2, 1], [3, 0]] =
     [PInf, Fin (7 / 9), Fin (5 / 9), PInf]"
  by code_simp

lemma example_argsort:
  "argsort example_env [PInf, Fin (7 / 9), Fin (5 / 9), PInf] = [2, 1, 0, 3]"
  by code_simp

lemma example_reduce_step:
  "reduce_step example_env [[0, 9], [1, 4], [2, 1], [3, 0]] = Inr [[1, 4], [0, 9], [3, 0]]"
  by (simp add: reduce_step_def example_crowding example_argsort take_rows_def)

lemma example_down_sample:
  "down_sample example_env (Some 3) [[0, 9], [1, 4], [2, 1], [3, 0]] =
     Inr [[1, 4], [0, 9], [3, 0]]"
proof -
  have "nat (int (length [[0, 9], [1, 4], [2, 1], [3, 0::real]]) - 3) = Suc 0"
    by simp
  then show ?thesis
    by (simp add: down_sample_def example_reduce_step)
qed

lemma example_keep_3:
  "fst (calc_pareto_front example_env example_problem 200 20 10 (Some 3) empty_world) =
     Inr [[1, 4], [0, 9], [3, 0]]"
proof -
  have miss: "files empty_world ''/home/user/.arch_opt_pf_cache/example__.pkl'' = None"
    by (simp add: empty_world_def)
  have "fst (calc_pareto_front example_env example_problem 200 20 10 (Some 3) empty_world) =
      reduce_front example_env (Some 3) (Some [[0, 9], [1, 4], [2, 1], [3, 0]])"
    by (rule calc_miss[OF example_path miss example_compute_front_events])
  then show ?thesis
    by (simp add: reduce_front_def example_unique_rows example_down_sample)
qed

lemma example_crowding_2:
  "calc_crowding_distance example_env [[1, 4], [0, 9], [3, 0]] = [Fin 1, PInf, PInf]"
  by code_simp

lemma example_argsort_2: "argsort example_env [Fin 1, PInf, PInf] = [0, 1, 2]"
  by code_simp

lemma example_reduce_step_2:
  "reduce_step example_env [[1, 4], [0, 9], [3, 0]] = Inr [[0, 9], [3, 0]]"
  by (simp add: reduce_step_def example_crowding_2 example_argsort_2 take_rows_def)

lemma example_down_sample_2:
  "down_sample example_env (Some 2) [[0, 9], [1, 4], [2, 1], [3, 0]] = Inr [[0, 9], [3, 0]]"
proof -
  have "reduce_loop example_env (Suc (Suc 0)) [[0, 9], [1, 4], [2, 1], [3, 0]] =
      Inr [[0, 9], [3, 0]]"
    by (simp add: example_reduce_step example_reduce_step_2)
  then show ?thesis
    by (simp add: down_sample_def numeral_2_eq_2)
qed

theorem reduction_removes_lowest_witness:
  "(\<exists>fronts. length fronts = Suc (nat (int (length [[0, 9], [1, 4], [2, 1], [3, 0::real]]) - 2)) \<and> fronts ! 0 = [[0, 9], [1, 4], [2, 1], [3, 0::real]] \<and>
      (\<forall>t<nat (int (length [[0, 9], [1, 4], [2, 1], [3, 0::real]]) - 2).
         reduce_step example_env (fronts ! t) = Inr (fronts ! Suc t) \<and>
         removes_lowest example_env (fronts ! t) (fronts ! Suc t)) \<and>
      down_sample example_env (Some 2) [[0, 9], [1, 4], [2, 1], [3, 0::real]] = Inr (last fronts) \<and>
      int (length (last fronts)) = 2) \<and>
   down_sample example_env (Some 2) [[0, 9], [1, 4], [2, 1], [3, 0::real]] = Inr [[0, 9], [3, 0]]"
proof -
  have k0: "(0::int) \<le> 2"
    by simp
  have k1: "2 < int (length [[0, 9], [1, 4], [2, 1], [3, 0::real]])"
    by simp
  show ?thesis
    by (rule conjI[OF reduction_removes_lowest[OF sorting_ok_example k0 k1] example_down_sample_2])
qed

theorem returned_front_size_witness:
  "reduce_front example_env None (Some [[3, 0], [0, 9], [1, 4], [0, 9], [2, 1]]) =
     Inr (unique_rows [[3, 0], [0, 9], [1, 4], [0, 9], [2, 1]]) \<and>
   reduce_front example_env (Some 4) (Some [[3, 0], [0, 9], [1, 4], [0, 9], [2, 1]]) =
     Inr (unique_rows [[3, 0], [0, 9], [1, 4], [0, 9], [2, 1]]) \<and>
   (\<exists>pf. reduce_front example_env (Some 2) (Some [[3, 0], [0, 9], [1, 4], [0, 9], [2, 1]]) = Inr pf \<and>
      int (length pf) = 2) \<and>
   fst (calc_pareto_front example_env example_problem 200 20 10 (Some 2) empty_world) =
     reduce_front example_env (Some 2) (Some [[0, 9], [1, 4], [2, 1], [3, 0]])"
proof -
  let ?pf0 = "[[3, 0], [0, 9], [1, 4], [0, 9], [2, 1::real]]"
  have u: "length (unique_rows ?pf0) = 4"
    by code_simp
  have a: "reduce_front example_env None (Some ?pf0) = Inr (unique_rows ?pf0)"
    using returned_front_size[OF sorting_ok_example, of None ?pf0] by simp
  have b: "reduce_front example_env (Some 4) (Some ?pf0) = Inr (unique_rows ?pf0)"
    using returned_front_size[OF sorting_ok_example, of "Some 4" ?pf0] u by simp
  have c: "\<exists>pf. reduce_front example_env (Some 2) (Some ?pf0) = Inr pf \<and> int (length pf) = 2"
    using returned_front_size[OF sorting_ok_example, of "Some 2" ?pf0 2] u by simp
  note path = example_path
  have miss: "files empty_world ''/home/user/.arch_opt_pf_cache/example__.pkl'' = None"
    by (simp add: empty_world_def)
  note cf' = example_compute_front_events
  have d: "fst (calc_pareto_front example_env example_problem 200 20 10 (Some 2) empty_world) =
     reduce_front example_env (Some 2) (Some [[0, 9], [1, 4], [2, 1], [3, 0]])"
    using returned_front_size[OF sorting_ok_example, THEN conjunct2, THEN conjunct2, rule_format,
        OF conjI[OF path conjI[OF miss cf']]] .
  from a b c d show ?thesis
    by (intro conjI)
qed


text \<open>
  On four points the row of lowest crowding distance, \<open>[2, 1]\<close> with \<open>5/9\<close>, is removed and
  the row of second-lowest distance, \<open>[1, 4]\<close> with \<open>7/9\<close>, is kept.
\<close>

theorem second_lowest_counterexample:
  "calc_crowding_distance example_env [[0, 9], [1, 4], [2, 1], [3, 0]] =
     [PInf, Fin (7 / 9), Fin (5 / 9), PInf] \<and>
   down_sample example_env (Some 3) [[0, 9], [1, 4], [2, 1], [3, 0]] =
     Inr [[1, 4], [0, 9], [3, 0]] \<and>
   fst (calc_pareto_front example_env example_problem 200 20 10 (Some 3) empty_world) =
     Inr [[1, 4], [0, 9], [3, 0]]"
  using example_crowding example_down_sample example_keep_3 by (intro conjI)



lemma non_dominated_iff: "non_dominated F \<longleftrightarrow> (\<forall>a\<in>set F. \<forall>b\<in>set F. \<not> dominates b a)"
  by (auto simp: non_dominated_def list_all_iff list_ex_iff)

lemma set_non_dominated_subset:
  "set (non_dominated_subset F) = {a \<in> set F. \<not> (\<exists>b\<in>set F. dominates b a)}"
  by (auto simp: non_dominated_subset_def list_ex_iff)

lemma non_dominated_nds: "non_dominated (non_dominated_subset F)"
  by (auto simp: non_dominated_iff set_non_dominated_subset)

lemma non_dominated_mono: "non_dominated F \<Longrightarrow> set G \<subseteq> set F \<Longrightarrow> non_dominated G"
  by (auto simp: non_dominated_iff)




lemma dominates_iff:
  "length a = length b \<Longrightarrow>
   dominates a b \<longleftrightarrow> (\<exists>i<length a. a ! i < b ! i) \<and> (\<forall>i<length a. a ! i \<le> b ! i)"
proof -
  assume l: "length a = length b"
  have 1: "list_ex (\<lambda>(x, y). x < y) (zip a b) \<longleftrightarrow> (\<exists>i<length a. a ! i < b ! i)"
    using l by (fastforce simp: list_ex_iff set_zip)
  have 2: "list_ex (\<lambda>(x, y). y < x) (zip a b) \<longleftrightarrow> (\<exists>i<length a. b ! i < a ! i)"
    using l by (fastforce simp: list_ex_iff set_zip)
  show ?thesis
    unfolding dominates_def 1 2 by (meson not_less)
qed

lemma dominates_irrefl: "\<not> dominates a a"
  by (simp add: dominates_iff)

lemma dominates_trans:
  assumes "length a = m" "length b = m" "length c = m" "dominates a b" "dominates b c"
  shows "dominates a c"
proof -
  from assms obtain i where i: "i < m" "a ! i < b ! i"
    by (auto simp: dominates_iff)
  have ab: "\<forall>j<m. a ! j \<le> b ! j" and bc: "\<forall>j<m. b ! j \<le> c ! j"
    using assms by (auto simp: dominates_iff)
  have "a ! i < c ! i"
    using i bc by (meson less_le_trans)
  moreover have "\<forall>j<m. a ! j \<le> c ! j"
    using ab bc by (meson order_trans)
  ultimately show ?thesis
    using assms(1,3) i(1) by (auto simp: dominates_iff)
qed

lemma maximal_dominator:
  assumes fin: "finite S" and len: "\<forall>r\<in>S. length r = m" and x: "length x = m"
  shows "y \<in> S \<Longrightarrow> dominates y x \<Longrightarrow> \<exists>z\<in>S. dominates z x \<and> \<not> (\<exists>u\<in>S. dominates u z)"
proof (induction "card {u \<in> S. dominates u y}" arbitrary: y rule: less_induct)
  case less
  show ?case
  proof (cases "\<exists>u\<in>S. dominates u y")
    case False
    with less.prems show ?thesis by blast
  next
    case True
    then obtain u where u: "u \<in> S" "dominates u y"
      by blast
    have sub: "{v \<in> S. dominates v u} \<subseteq> {v \<in> S. dominates v y}"
      using dominates_trans[of _ m u y] len u less.prems(1) by blast
    have "u \<in> {v \<in> S. dominates v y}" "u \<notin> {v \<in> S. dominates v u}"
      using u dominates_irrefl by auto
    with sub have "{v \<in> S. dominates v u} \<subset> {v \<in> S. dominates v y}"
      by blast
    then have "card {v \<in> S. dominates v u} < card {v \<in> S. dominates v y}"
      using fin by (intro psubset_card_mono) simp_all
    moreover have "dominates u x"
      using dominates_trans[of u m y x] len u less.prems x by blast
    ultimately show ?thesis
      using less.hyps[of u] u(1) by blast
  qed
qed

lemma nds_merge_step:
  assumes len: "\<forall>r\<in>set A \<union> set B. length r = m"
  shows "non_dominated_subset (non_dominated_subset A @ B) = non_dominated_subset (A @ B)"
proof -
  let ?N = "non_dominated_subset A"
  let ?Q = "\<lambda>a. \<not> list_ex (\<lambda>b. dominates b a) (A @ B)"
  let ?P = "\<lambda>a. \<not> list_ex (\<lambda>b. dominates b a) (?N @ B)"
  let ?PA = "\<lambda>a. \<not> list_ex (\<lambda>b. dominates b a) A"
  have sub: "set ?N \<subseteq> set A"
    by (auto simp: non_dominated_subset_def)
  have eq: "?P a = ?Q a" if a: "a \<in> set A \<union> set B" for a
  proof
    assume p: "?P a"
    show "?Q a"
    proof (rule ccontr)
      assume "\<not> ?Q a"
      then obtain b where b: "b \<in> set A \<union> set B" "dominates b a"
        by (auto simp: list_ex_iff)
      from p have nb: "\<forall>c\<in>set ?N \<union> set B. \<not> dominates c a"
        by (auto simp: list_ex_iff)
      with b have bA: "b \<in> set A"
        by blast
      have "length a = m" "\<forall>r\<in>set A. length r = m"
        using len a by auto
      from maximal_dominator[OF _ this(2) this(1) bA b(2)]
      obtain z where z: "z \<in> set A" "dominates z a" "\<not> (\<exists>u\<in>set A. dominates u z)"
        by auto
      then have "z \<in> set ?N"
        by (auto simp: non_dominated_subset_def list_ex_iff)
      with nb z(2) show False
        by blast
    qed
  next
    assume "?Q a"
    then show "?P a"
      using sub by (auto simp: list_ex_iff)
  qed
  have "non_dominated_subset (?N @ B) = filter ?P ?N @ filter ?P B"
    by (simp add: non_dominated_subset_def[of "?N @ B"])
  also have "filter ?P ?N = filter ?Q ?N"
    using eq sub by (intro filter_cong) auto
  also have "filter ?P B = filter ?Q B"
    using eq by (intro filter_cong) auto
  also have "filter ?Q ?N = filter (\<lambda>a. ?PA a \<and> ?Q a) A"
    by (simp add: non_dominated_subset_def[of A])
  also have "\<dots> = filter ?Q A"
    by (intro filter_cong) (auto simp: list_ex_iff)
  finally show ?thesis
    by (simp add: non_dominated_subset_def[of "A @ B"])
qed

lemma nds_id: "non_dominated F \<Longrightarrow> non_dominated_subset F = F"
  by (simp add: non_dominated_subset_def non_dominated_def list_all_iff)

lemma merge_loop_Some:
  assumes "\<forall>r\<in>set X. length r = m" and "\<forall>F\<in>set Fs. \<forall>r\<in>set F. length r = m"
  shows "merge_loop (Some (non_dominated_subset X)) (map Inr Fs) =
           Inr (Some (non_dominated_subset (X @ concat Fs)))"
  using assms
proof (induction Fs arbitrary: X)
  case Nil
  then show ?case by simp
next
  case (Cons F Fs)
  have "non_dominated_subset (non_dominated_subset X @ F) = non_dominated_subset (X @ F)"
    using Cons.prems by (intro nds_merge_step[of _ _ m]) auto
  then have "merge_loop (Some (non_dominated_subset X)) (map Inr (F # Fs)) =
      merge_loop (Some (non_dominated_subset (X @ F))) (map Inr Fs)"
    by (simp add: nds_select_eq)
  also have "\<dots> = Inr (Some (non_dominated_subset ((X @ F) @ concat Fs)))"
    using Cons.prems by (intro Cons.IH) auto
  finally show ?case
    by simp
qed

lemma merge_loop_None:
  assumes "Fs \<noteq> []" and "non_dominated (hd Fs)" and "\<forall>F\<in>set Fs. \<forall>r\<in>set F. length r = m"
  shows "merge_loop None (map Inr Fs) = Inr (Some (non_dominated_subset (concat Fs)))"
proof -
  from assms(1) obtain F0 rest where Fs: "Fs = F0 # rest"
    by (cases Fs) auto
  have "merge_loop None (map Inr Fs) = merge_loop (Some (non_dominated_subset F0)) (map Inr rest)"
    using assms(2) Fs by (simp add: nds_id)
  also have "\<dots> = Inr (Some (non_dominated_subset (F0 @ concat rest)))"
    using assms(3) Fs by (intro merge_loop_Some[of _ m]) auto
  finally show ?thesis
    using Fs by simp
qed

lemma merge_loop_append:
  "merge_loop acc (xs @ ys) =
     (case merge_loop acc xs of Inl e \<Rightarrow> Inl e | Inr acc' \<Rightarrow> merge_loop acc' ys)"
  by (induction xs arbitrary: acc) (auto simp: nds_select_eq split: sum.splits option.splits)

text \<open>
  Claim C5. When all runs return non-dominated fronts (of rows with the same number of
  columns), the running front after run \<open>i\<close> is the non-dominated subset of the
  concatenation of the fronts of the runs up to \<open>i\<close>, the final front is the one-shot
  non-dominated subset of all fronts, and merging the fronts in any other order gives the
  same set of rows.
\<close>

theorem incremental_merge_is_one_shot:
  assumes fut: "futures env p pop_size n_gen n_repeat = map Inr Fs" and ne: "Fs \<noteq> []"
    and nd: "\<forall>F\<in>set Fs. non_dominated F"
    and len: "\<forall>F\<in>set Fs. \<forall>r\<in>set F. length r = m"
  shows "stochastic_front env p pop_size n_gen n_repeat =
           Inr (Some (non_dominated_subset (concat Fs))) \<and>
         (\<forall>i<length Fs.
            merge_loop None (map Inr (take (Suc i) Fs)) =
              Inr (Some (non_dominated_subset (concat (take (Suc i) Fs)))) \<and>
            stochastic_front env p pop_size n_gen n_repeat =
              merge_loop (Some (non_dominated_subset (concat (take (Suc i) Fs))))
                (map Inr (drop (Suc i) Fs))) \<and>
         set (non_dominated_subset (concat Fs)) =
           {a \<in> \<Union>(set ` set Fs). \<not> (\<exists>b\<in>\<Union>(set ` set Fs). dominates b a)} \<and>
         (\<forall>Fs'. mset Fs' = mset Fs \<longrightarrow>
            (\<exists>pf'. merge_loop None (map Inr Fs') = Inr (Some pf') \<and>
                   set pf' = set (non_dominated_subset (concat Fs))))"
proof (intro conjI allI impI)
  show "stochastic_front env p pop_size n_gen n_repeat =
      Inr (Some (non_dominated_subset (concat Fs)))"
    using merge_loop_None[OF ne _ len] nd ne fut by (simp add: stochastic_front_def)
next
  fix i assume i: "i < length Fs"
  have t: "take (Suc i) Fs \<noteq> []" "non_dominated (hd (take (Suc i) Fs))"
      "\<forall>F\<in>set (take (Suc i) Fs). \<forall>r\<in>set F. length r = m"
    using i ne nd len by (auto simp: hd_take dest: in_set_takeD)
  show pre: "merge_loop None (map Inr (take (Suc i) Fs)) =
      Inr (Some (non_dominated_subset (concat (take (Suc i) Fs))))"
    by (rule merge_loop_None[OF t])
  have "stochastic_front env p pop_size n_gen n_repeat =
      merge_loop None (map Inr (take (Suc i) Fs) @ map Inr (drop (Suc i) Fs))"
    using fut by (simp add: stochastic_front_def flip: map_append)
  also have "\<dots> = merge_loop (Some (non_dominated_subset (concat (take (Suc i) Fs))))
      (map Inr (drop (Suc i) Fs))"
    by (simp add: merge_loop_append pre)
  finally show "stochastic_front env p pop_size n_gen n_repeat =
      merge_loop (Some (non_dominated_subset (concat (take (Suc i) Fs))))
        (map Inr (drop (Suc i) Fs))" .
next
  show "set (non_dominated_subset (concat Fs)) =
      {a \<in> \<Union>(set ` set Fs). \<not> (\<exists>b\<in>\<Union>(set ` set Fs). dominates b a)}"
    by (simp add: set_non_dominated_subset)
next
  fix Fs' assume m: "mset Fs' = mset Fs"
  then have s: "set Fs' = set Fs"
    by (rule mset_eq_setD)
  have ne': "Fs' \<noteq> []"
    using m ne by auto
  have "merge_loop None (map Inr Fs') = Inr (Some (non_dominated_subset (concat Fs')))"
    using nd len s ne' by (intro merge_loop_None[of _ m]) auto
  moreover have "set (non_dominated_subset (concat Fs')) = set (non_dominated_subset (concat Fs))"
    using s by (simp add: set_non_dominated_subset)
  ultimately show "\<exists>pf'. merge_loop None (map Inr Fs') = Inr (Some pf') \<and>
      set pf' = set (non_dominated_subset (concat Fs))"
    by blast
qed

theorem incremental_merge_is_one_shot_witness:
  "stochastic_front example_env continuous_problem 200 20 3 =
     Inr (Some (non_dominated_subset
       (concat [[[0, 3], [1, 2]], [[1, 2], [2, 1]], [[2, 1], [3, 0]]]))) \<and>
   merge_loop None (map Inr (take (Suc 1) [[[0, 3], [1, 2]], [[1, 2], [2, 1]], [[2, 1], [3, 0::real]]])) =
     Inr (Some (non_dominated_subset
       (concat (take (Suc 1) [[[0, 3], [1, 2]], [[1, 2], [2, 1]], [[2, 1], [3, 0]]])))) \<and>
   (\<exists>pf'. merge_loop None (map Inr (rev [[[0, 3], [1, 2]], [[1, 2], [2, 1]], [[2, 1], [3, 0::real]]])) =
            Inr (Some pf') \<and>
          set pf' = set (non_dominated_subset
            (concat [[[0, 3], [1, 2]], [[1, 2], [2, 1]], [[2, 1], [3, 0]]])))"
proof -
  let ?Fs = "[[[0, 3], [1, 2]], [[1, 2], [2, 1]], [[2, 1], [3, 0::real]]]"
  have fut: "futures example_env continuous_problem 200 20 3 = map Inr ?Fs"
    by code_simp
  have ne: "?Fs \<noteq> []"
    by simp
  have nd: "\<forall>F\<in>set ?Fs. non_dominated F"
    by (simp add: non_dominated_def dominates_def)
  have len: "\<forall>F\<in>set ?Fs. \<forall>r\<in>set F. length r = 2"
    by simp
  note T = incremental_merge_is_one_shot[OF fut ne nd len]
  have i: "1 < length ?Fs"
    by simp
  have m: "mset (rev ?Fs) = mset ?Fs"
    by simp
  note a = T[THEN conjunct1]
  note b = T[THEN conjunct2, THEN conjunct1, rule_format, OF i, THEN conjunct1]
  note c = T[THEN conjunct2, THEN conjunct2, THEN conjunct2, rule_format, OF m]
  show ?thesis
    by (rule conjI[OF a conjI[OF b c]])
qed

lemma merge_loop_Some_nd:
  "merge_loop (Some acc) rs = Inr (Some pf) \<Longrightarrow> non_dominated acc \<Longrightarrow> non_dominated pf"
proof (induction rs arbitrary: acc)
  case Nil
  then show ?case by simp
next
  case (Cons r rs)
  show ?case
  proof (cases r)
    case (Inl e)
    with Cons.prems show ?thesis by simp
  next
    case (Inr F)
    with Cons.prems have "merge_loop (Some (non_dominated_subset (acc @ F))) rs = Inr (Some pf)"
      by (simp add: nds_select_eq)
    then show ?thesis
      by (rule Cons.IH) (rule non_dominated_nds)
  qed
qed

lemma merge_loop_None_nd:
  assumes "merge_loop None rs = Inr (Some pf)"
  shows "rs = [Inr pf] \<or> non_dominated pf"
proof (cases rs)
  case Nil
  with assms show ?thesis by simp
next
  case (Cons r rest)
  show ?thesis
  proof (cases r)
    case (Inl e)
    with assms Cons show ?thesis by simp
  next
    case (Inr F)
    with assms Cons have m: "merge_loop (Some F) rest = Inr (Some pf)"
      by simp
    show ?thesis
    proof (cases rest)
      case Nil
      with m Cons Inr show ?thesis by simp
    next
      case (Cons r2 rest2)
      show ?thesis
      proof (cases r2)
        case (Inl e)
        with m Cons show ?thesis by simp
      next
        case (Inr G)
        with m Cons have "merge_loop (Some (non_dominated_subset (F @ G))) rest2 = Inr (Some pf)"
          by (simp add: nds_select_eq)
        then have "non_dominated pf"
          by (rule merge_loop_Some_nd) (rule non_dominated_nds)
        then show ?thesis ..
      qed
    qed
  qed
qed

lemma compute_front_nd:
  assumes c: "compute_front env p pop_size n_gen n_repeat = (Inr (Some pf0), evs)"
    and h: "n_repeat = 1 \<longrightarrow> (\<forall>F. minimize env p pop_size n_gen 0 = Inr F \<longrightarrow> non_dominated F)"
  shows "non_dominated pf0"
proof -
  from c obtain n where n: "design_space_size p = Inr n"
    by (auto simp: compute_front_def split: sum.splits)
  show ?thesis
  proof (cases "use_exhaustive n pop_size n_gen n_repeat")
    case True
    with c n have "pf0 = non_dominated_subset (evaluate env p (exhaustive_sample env p (the n)))"
      by (simp add: compute_front_def exhaustive_front_def nds_select_eq)
    then show ?thesis
      by (simp add: non_dominated_nds)
  next
    case False
    with c n have "merge_loop None (futures env p pop_size n_gen n_repeat) = Inr (Some pf0)"
      by (simp add: compute_front_def stochastic_front_def)
    from merge_loop_None_nd[OF this] show ?thesis
    proof
      assume one: "futures env p pop_size n_gen n_repeat = [Inr pf0]"
      then have "length (futures env p pop_size n_gen n_repeat) = 1"
        by simp
      then have r: "n_repeat = 1"
        by (simp add: futures_def)
      with one have "minimize env p pop_size n_gen 0 = Inr pf0"
        by (simp add: futures_def run_minimize_def)
      with h r show ?thesis
        by blast
    qed
  qed
qed

lemma reduce_step_subset: "reduce_step env pf = Inr pf' \<Longrightarrow> set pf' \<subseteq> set pf"
  by (auto simp: reduce_step_def Let_def dest!: take_rows_Inr)

lemma reduce_loop_subset: "reduce_loop env j pf = Inr pf' \<Longrightarrow> set pf' \<subseteq> set pf"
proof (induction j arbitrary: pf)
  case 0
  then show ?case by simp
next
  case (Suc j)
  then obtain pf1 where s: "reduce_step env pf = Inr pf1" "reduce_loop env j pf1 = Inr pf'"
    by (auto split: sum.splits)
  from Suc.IH[OF s(2)] reduce_step_subset[OF s(1)] show ?case
    by blast
qed

lemma set_unique_rows: "set (unique_rows pf) = set pf"
  by (simp add: unique_rows_def)

lemma reduce_front_subset: "reduce_front env k (Some pf0) = Inr pf \<Longrightarrow> set pf \<subseteq> set pf0"
  using reduce_loop_subset[of env _ "unique_rows pf0" pf]
  by (auto simp: reduce_front_def down_sample_def set_unique_rows split: option.splits if_splits)

text \<open>
  Claim C3. A returned front is non-dominated on every path: the cache holds only
  non-dominated fronts (initially none, and the calls and the reset keep it so), the
  exhaustive path and the merge of several runs filter, a single run returns the front of
  the search as it is (non-dominated by pymoo's contract), and deduplication and reduction
  only remove rows.
\<close>

theorem returned_front_non_dominated:
  "(cache_ok w \<and>
    (n_repeat = 1 \<longrightarrow> (\<forall>F. minimize env p pop_size n_gen 0 = Inr F \<longrightarrow> non_dominated F)) \<and>
    calc_pareto_front env p pop_size n_gen n_repeat n_pts_keep w = (Inr pf, w')
      \<longrightarrow> non_dominated pf \<and> cache_ok w') \<and>
   (cache_ok w \<longrightarrow> cache_ok (snd (reset_pf_cache env p w))) \<and>
   cache_ok (w\<lparr>files := Map.empty\<rparr>) \<and>
   (non_dominated pf \<longleftrightarrow> (\<forall>a\<in>set pf. \<forall>b\<in>set pf. \<not> dominates b a))"
proof (intro conjI impI)
  assume a: "cache_ok w \<and>
    (n_repeat = 1 \<longrightarrow> (\<forall>F. minimize env p pop_size n_gen 0 = Inr F \<longrightarrow> non_dominated F)) \<and>
    calc_pareto_front env p pop_size n_gen n_repeat n_pts_keep w = (Inr pf, w')"
  then have ok: "cache_ok w"
    and h: "n_repeat = 1 \<longrightarrow> (\<forall>F. minimize env p pop_size n_gen 0 = Inr F \<longrightarrow> non_dominated F)"
    and c: "calc_pareto_front env p pop_size n_gen n_repeat n_pts_keep w = (Inr pf, w')"
    by simp_all
  from c obtain path where path: "pf_cache_path env p = Inr path"
    by (auto simp: calc_pareto_front_def split: sum.splits)
  have "non_dominated pf \<and> cache_ok w'"
  proof (cases "files w path")
    case (Some cached)
    with c path have "pf = cached" "files w' = files w"
      by (auto simp: calc_pareto_front_def)
    moreover have "cached \<in> ran (files w)"
      using Some by (rule ranI)
    ultimately show ?thesis
      using ok by (simp add: cache_ok_def)
  next
    case None
    with c path obtain pf0 evs where
      cf: "compute_front env p pop_size n_gen n_repeat = (Inr pf0, evs)"
      and rf: "reduce_front env n_pts_keep pf0 = Inr pf"
      and w': "files w' = (files w)(path \<mapsto> pf)"
      by (auto simp: calc_pareto_front_def split: sum.splits prod.splits)
    from rf obtain q where q: "pf0 = Some q"
      by (cases pf0) (simp_all add: reduce_front_def)
    have "non_dominated q"
      using cf h unfolding q by (rule compute_front_nd)
    moreover have "set pf \<subseteq> set q"
      using rf unfolding q by (rule reduce_front_subset)
    ultimately have nd: "non_dominated pf"
      by (rule non_dominated_mono)
    have "ran (files w') = insert pf (ran (files w))"
      using None w' by simp
    with nd ok show ?thesis
      by (simp add: cache_ok_def)
  qed
  then show "non_dominated pf" "cache_ok w'"
    by simp_all
next
  assume ok: "cache_ok w"
  have "ran ((files w)(k := None)) \<subseteq> ran (files w)" for k
    by (auto simp: ran_def split: if_splits)
  with ok show "cache_ok (snd (reset_pf_cache env p w))"
    by (auto simp: reset_pf_cache_def cache_ok_def split: sum.splits)
next
  show "cache_ok (w\<lparr>files := Map.empty\<rparr>)"
    by (simp add: cache_ok_def)
next
  show "non_dominated pf \<longleftrightarrow> (\<forall>a\<in>set pf. \<forall>b\<in>set pf. \<not> dominates b a)"
    by (rule non_dominated_iff)
qed

theorem returned_front_non_dominated_witness:
  "fst (calc_pareto_front example_env continuous_problem 200 20 1 (Some 100) empty_world) =
     Inr [[0, 3], [1, 2]] \<and>
   non_dominated [[0, 3], [1, 2::real]] \<and>
   cache_ok (snd (calc_pareto_front example_env continuous_problem 200 20 1 (Some 100) empty_world))"
proof -
  let ?c = "calc_pareto_front example_env continuous_problem 200 20 1 (Some 100) empty_world"
  have f: "fst ?c = Inr [[0, 3], [1, 2]]"
    by code_simp
  then have c: "?c = (Inr [[0, 3], [1, 2]], snd ?c)"
    by (simp add: prod_eq_iff)
  have ok: "cache_ok empty_world"
    by (simp add: cache_ok_def empty_world_def)
  have h: "(1::int) = 1 \<longrightarrow>
      (\<forall>F. minimize example_env continuous_problem 200 20 0 = Inr F \<longrightarrow> non_dominated F)"
    by (simp add: example_env_def example_minimize_def non_dominated_def dominates_def)
  from returned_front_non_dominated[THEN conjunct1, rule_format, OF conjI[OF ok conjI[OF h c]]] f
  show ?thesis
    by simp
qed














end
